theory Spec2Isabelle
  imports Main
begin

section \<open>Values, pointers and frames\<close>

text \<open>
  A Scheme value (\<open>ScmObj\<close>). The functions verified below only move values around and
  compare them with the sentinels and with the static subr
  \<open>default_exception_handler_rec\<close>. \<open>Continuation a\<close> is the subr that \<open>Scm_MakeSubr\<close> builds
  from \<open>throw_continuation\<close> and the escape point at address \<open>a\<close>; every other object is
  \<open>Obj a\<close>, identified by its word \<open>a\<close>. A proper Scheme list is a HOL list of its elements; \<open>SCM_NIL\<close> is \<open>[]\<close>.
\<close>

datatype ScmObj = SCM_UNDEFINED | SCM_FALSE | DEFAULT_EXCEPTION_HANDLER | Continuation nat
  | Obj nat

text \<open>
  A cell of the dynamic-handler list: the pair \<open>(before . after)\<close> made by \<open>Scm_Cons\<close>.
  \<open>Scm_Memq\<close> compares cells by address, so a cell carries the address of its pair.
\<close>

datatype hcell = HCell (cell_addr: nat) (cell_before: ScmObj) (cell_after: ScmObj)

text \<open>
  Pointers to stack words and frames. \<open>Stk n\<close> is the address \<open>vm->stackBase + n\<close>;
  \<open>Heap b i\<close> is word \<open>i\<close> of the \<open>b\<close>-th block handed out by the allocator
  (\<open>SCM_NEW2\<close>), which never lies in the value stack.
\<close>

datatype ptr = NULL | Stk nat | Heap nat nat

text \<open>
  The C continuation procedures of vm.c (\<open>ScmCContinuationProc\<close>); a \<open>pc\<close> slot names the
  procedure, whose body is given further down.
\<close>

datatype ccont = Dynwind_before_cc | Dynwind_body_cc | Dynwind_after_cc | Throw_cont_cc
  | Process_queued_requests_cc

text \<open>
  What a \<open>pc\<close> slot can hold: the static code fragments of vm.c, the boundary mark, an
  address in a compiled-code vector, (in a C continuation frame) a C procedure, or the null
  pointer.
\<close>

datatype pcval = PC_TO_RETURN | apply_calls nat | apply_callN | boundaryFrameMark
  | CodeAt nat | CProc ccont | PC_NULL

text \<open>
  A word of the value stack or of the opaque data of a C continuation (\<open>void *data[]\<close>):
  the null pointer, a value, a small integer cast to a pointer, a Scheme list, a C array
  of values, a handler list, a list of \<open>(thunk . handler-chain)\<close> pairs, or the address
  of an escape point.
\<close>

datatype word = NULLW | ObjW ScmObj | IntW int | ListW "ScmObj list" | ArrW "ScmObj list"
  | HandlersW "hcell list" | ThunksW "(ScmObj \<times> hcell list) list" | EpW nat

text \<open>
  \<open>ScmContFrame\<close>. The header fields are the six of the source; \<open>c_data\<close> holds the words
  that follow the header (the opaque data of a C continuation, or the saved arguments of
  a heap copy of a Scheme frame). A Scheme frame in the stack keeps its arguments in the
  stack words \<open>c_argp .. c_argp + c_size\<close>.
\<close>

record ScmContFrame =
  c_prev :: ptr
  c_env :: ptr
  c_argp :: ptr
  c_size :: int
  c_pc :: pcval
  c_base :: "nat option"
  c_data :: "word list"

text \<open>\<open>ScmEnvFrame\<close>; \<open>e_data\<close> holds the bindings of a heap copy (they precede the header).\<close>

record ScmEnvFrame =
  e_up :: ptr
  e_info :: ScmObj
  e_size :: int
  e_data :: "word list"

text \<open>
  \<open>ScmEscapePoint\<close>. The links \<open>prev\<close> and \<open>floating\<close> are kept in the VM as the chains
  they form (see \<open>ScmVM\<close>); \<open>ep_cstack\<close> is the address of a host-stack record or NULL.
\<close>

record ScmEscapePoint =
  ep_ehandler :: ScmObj
  ep_xhandler :: ScmObj
  ep_handlers :: "hcell list"
  ep_cont :: ptr
  ep_cstack :: "nat option"
  ep_errorReporting :: bool
  ep_rewindBefore :: bool

datatype escape_reason = SCM_VM_ESCAPE_NONE | SCM_VM_ESCAPE_ERROR | SCM_VM_ESCAPE_CONT

text \<open>
  The VM. Registers are as in the source; \<open>sp\<close>, \<open>argp\<close> and \<open>stackEnd\<close> are offsets from
  \<open>stackBase\<close>. Frames live in typed stores indexed by pointer (\<open>conts\<close>, \<open>envs\<close>): the
  frame whose header starts at \<open>p\<close> is \<open>conts vm p\<close>, wherever \<open>p\<close> lies. The value words
  of the stack are \<open>stack\<close>. A NULL-terminated chain of records is the list of the
  addresses of its records, innermost first: \<open>cstack\<close> follows \<open>ScmCStack.prev\<close>,
  \<open>escapePoint\<close> follows \<open>ScmEscapePoint.prev\<close>, and \<open>floatingEP\<close> is the chain that starts
  at \<open>SCM_VM_FLOATING_EP(vm)\<close> and follows \<open>floating\<close>. \<open>cs_cont a\<close> is the \<open>cont\<close> field of
  the host-stack record at \<open>a\<close>, \<open>eps a\<close> the escape point at \<open>a\<close>. \<open>heapNext\<close> is the
  next block the allocator hands out, \<open>errorBeingHandled\<close> the runtime flag
  \<open>SCM_ERROR_BEING_HANDLED\<close>. \<open>base\<close> is the address of the compiled code or NULL, and
  \<open>escapeData\<close> is the pair \<open>escapeData[0]\<close> (an escape point or NULL), \<open>escapeData[1]\<close>.
\<close>

record ScmVM =
  pc :: pcval
  sp :: nat
  argp :: nat
  env :: ptr
  cont :: ptr
  base :: "nat option"
  val0 :: ScmObj
  vals :: "ScmObj list"
  numVals :: int
  handlers :: "hcell list"
  exceptionHandler :: ScmObj
  escapePoint :: "nat list"
  floatingEP :: "nat list"
  cstack :: "nat list"
  escapeReason :: escape_reason
  escapeData :: "nat option \<times> word"
  errorBeingHandled :: bool
  stackEnd :: nat
  stack :: "nat \<Rightarrow> word"
  conts :: "ptr \<Rightarrow> ScmContFrame"
  envs :: "ptr \<Rightarrow> ScmEnvFrame"
  eps :: "nat \<Rightarrow> ScmEscapePoint"
  cs_cont :: "nat \<Rightarrow> ptr"
  heapNext :: nat

text \<open>
  The constants of gauche/vm.h, which is not among the sources: every function that needs
  one takes them as the parameter \<open>k\<close>, and every theorem holds for all their values.
\<close>

record vmconst =
  SCM_VM_MAX_VALUES :: nat
  SCM_VM_STACK_SIZE :: nat
  CONT_FRAME_SIZE :: nat

text \<open>
  The ways a C function of the VM leaves without returning: \<open>Scm_Error(fmt, ...)\<close> (the
  format string and the objects it formats), a failed \<open>SCM_ASSERT\<close> (its expression), and
  \<open>siglongjmp\<close> to the jump buffer of the current host-stack record;
  \<open>Undefined_behaviour\<close> stands for a call through a \<open>pc\<close> slot that holds no C procedure.
  A function that can leave so returns \<open>Inl\<close> of the exit and the VM as it is at that moment.
\<close>

datatype error = Scm_Error string "ScmObj list" | Scm_Assert string | Siglongjmp
  | Undefined_behaviour

text \<open>
  The frames read from words that are all zero: every pointer is NULL, the size is 0 and the
  \<open>info\<close> of an environment is the object whose word is 0.
\<close>

definition zero_cont :: ScmContFrame where
  "zero_cont = \<lparr>c_prev = NULL, c_env = NULL, c_argp = NULL, c_size = 0, c_pc = PC_NULL,
                 c_base = None, c_data = []\<rparr>"

definition zero_env :: ScmEnvFrame where
  "zero_env = \<lparr>e_up = NULL, e_info = Obj 0, e_size = 0, e_data = []\<rparr>"

section \<open>Stack management\<close>

text \<open>
  \<open>IN_STACK_P(ptr)\<close>: the unsigned difference \<open>ptr - vm->stackBase\<close> is below
  \<open>SCM_VM_STACK_SIZE\<close>. A heap block and the null pointer lie outside the stack.
\<close>

definition IN_STACK_P :: "vmconst \<Rightarrow> ptr \<Rightarrow> bool" where
  "IN_STACK_P k p = (case p of Stk n \<Rightarrow> n < SCM_VM_STACK_SIZE k | _ \<Rightarrow> False)"

text \<open>
  \<open>FORWARDED_ENV_P(e)\<close> and \<open>FORWARDED_CONT_P(c)\<close>: the pointer is not NULL and the frame's
  \<open>size\<close> is -1. \<open>FORWARDED_ENV(e)\<close> is \<open>e->up\<close> and \<open>FORWARDED_CONT(c)\<close> is \<open>c->prev\<close>; they
  are written out where they are used.
\<close>

definition FORWARDED_ENV_P :: "ScmVM \<Rightarrow> ptr \<Rightarrow> bool" where
  "FORWARDED_ENV_P vm e = (e \<noteq> NULL \<and> e_size (envs vm e) = -1)"

definition FORWARDED_CONT_P :: "ScmVM \<Rightarrow> ptr \<Rightarrow> bool" where
  "FORWARDED_CONT_P vm c = (c \<noteq> NULL \<and> c_size (conts vm c) = -1)"

text \<open>
  The \<open>n\<close> stack words from \<open>p\<close> upwards (the arguments of a Scheme continuation frame),
  and the \<open>n\<close> stack words below an environment header (its bindings).
\<close>

definition read_words :: "ScmVM \<Rightarrow> ptr \<Rightarrow> nat \<Rightarrow> word list" where
  "read_words vm p n = (case p of Stk m \<Rightarrow> map (stack vm) [m ..< m + n] | _ \<Rightarrow> [])"

definition env_bindings :: "ScmVM \<Rightarrow> ptr \<Rightarrow> nat \<Rightarrow> word list" where
  "env_bindings vm e n = (case e of Stk m \<Rightarrow> map (stack vm) [m - n ..< m] | _ \<Rightarrow> [])"

text \<open>
  \<open>save_env\<close>, the body of its loop in two parts. When the frame \<open>e\<close> is already forwarded
  (\<open>esize < 0\<close>) the previous copy is linked to the forwarding target and the loop returns.
  Otherwise a block is allocated, the bindings and the header are copied, the previous copy
  and \<open>head\<close> are updated, and \<open>e\<close> becomes a forwarding frame: \<open>up\<close> is the copy, \<open>size\<close> is
  -1 and \<open>info\<close> is \<open>SCM_FALSE\<close>. \<open>save_env_move\<close> returns the new state, the copy and the
  old \<open>e->up\<close>. \<open>SCM_FLONUM_ENSURE_MEM\<close> concerns the representation of flonums only and is
  left out, here and below.
\<close>

definition save_env_forwarded :: "ScmVM \<Rightarrow> ptr \<Rightarrow> ptr \<Rightarrow> ScmVM" where
  "save_env_forwarded vm e prev =
     (if prev \<noteq> NULL
      then vm\<lparr>envs := (envs vm)(prev := (envs vm prev)\<lparr>e_up := e_up (envs vm e)\<rparr>)\<rparr>
      else vm)"

definition save_env_move :: "ScmVM \<Rightarrow> ptr \<Rightarrow> ptr \<Rightarrow> ScmVM \<times> ptr \<times> ptr" where
  "save_env_move vm e prev =
     (let esize = nat (e_size (envs vm e));
          saved = Heap (heapNext vm) esize;
          vm1 = vm\<lparr>heapNext := heapNext vm + 1,
                   envs := (envs vm)(saved := (envs vm e)\<lparr>e_data := env_bindings vm e esize\<rparr>)\<rparr>;
          vm2 = (if prev \<noteq> NULL
                 then vm1\<lparr>envs := (envs vm1)(prev := (envs vm1 prev)\<lparr>e_up := saved\<rparr>)\<rparr>
                 else vm1);
          next = e_up (envs vm2 e);
          vm3 = vm2\<lparr>envs := (envs vm2)(e := (envs vm2 e)\<lparr>e_up := saved, e_size := -1, e_info := SCM_FALSE\<rparr>)\<rparr>
      in (vm3, saved, next))"

text \<open>
  The in-stack environment frames that are not forwarded. Each iteration of the loop on an
  in-stack frame forwards one of them, which bounds the loop.
\<close>

definition live_envs :: "vmconst \<Rightarrow> ScmVM \<Rightarrow> nat set" where
  "live_envs k vm = {n. n < SCM_VM_STACK_SIZE k \<and> 0 \<le> e_size (envs vm (Stk n))}"

lemma finite_live_envs: "finite (live_envs k vm)"
  by (simp add: live_envs_def)

lemma save_env_move_size:
  assumes "save_env_move vm e prev = (vm', saved, nxt)"
  shows "e_size (envs vm' e) = -1"
    and "Stk m \<noteq> e \<Longrightarrow> e_size (envs vm' (Stk m)) = e_size (envs vm (Stk m))"
  using assms by (auto simp: save_env_move_def Let_def)

lemma save_env_move_live:
  assumes mv: "save_env_move vm e prev = (vm', saved, nxt)" and sz: "\<not> e_size (envs vm e) < 0"
  shows "(IN_STACK_P k e \<longrightarrow> card (live_envs k vm') < card (live_envs k vm))
       \<and> (\<not> IN_STACK_P k e \<longrightarrow> live_envs k vm' = live_envs k vm)"
proof (cases "IN_STACK_P k e")
  case True
  then obtain n where n: "e = Stk n" "n < SCM_VM_STACK_SIZE k"
    by (auto simp: IN_STACK_P_def split: ptr.splits)
  have "x \<in> live_envs k vm' \<longleftrightarrow> x \<in> live_envs k vm - {n}" for x
  proof (cases "x = n")
    case True then show ?thesis using save_env_move_size(1)[OF mv] n by (simp add: live_envs_def)
  next
    case False then show ?thesis using save_env_move_size(2)[OF mv, of x] n by (simp add: live_envs_def)
  qed
  then have "live_envs k vm' = live_envs k vm - {n}" by blast
  moreover have "n \<in> live_envs k vm" using n sz by (simp add: live_envs_def)
  ultimately have "card (live_envs k vm') < card (live_envs k vm)"
    using finite_live_envs by (metis card_Diff1_less)
  then show ?thesis using True by simp
next
  case False
  have "x < SCM_VM_STACK_SIZE k \<Longrightarrow> Stk x \<noteq> e" for x
    using False by (auto simp: IN_STACK_P_def)
  then have "live_envs k vm' = live_envs k vm"
    using save_env_move_size(2)[OF mv] by (auto simp: live_envs_def)
  then show ?thesis using False by simp
qed

text \<open>
  The \<open>do ... while (IN_STACK_P(e))\<close> loop of \<open>save_env\<close>; the result is \<open>head\<close> and the VM.
\<close>

function save_env_loop :: "vmconst \<Rightarrow> ScmVM \<Rightarrow> ptr \<Rightarrow> ptr \<Rightarrow> ptr \<Rightarrow> ptr \<times> ScmVM" where
  "save_env_loop k vm e prev head =
     (if e_size (envs vm e) < 0 then (head, save_env_forwarded vm e prev)
      else case save_env_move vm e prev of (vm', saved, next) \<Rightarrow>
        let head' = (if head = NULL then saved else head)
        in if IN_STACK_P k next then save_env_loop k vm' next saved head' else (head', vm'))"
  by pat_completeness auto
termination
  apply (relation "measures [\<lambda>(k, vm, e, prev, head). card (live_envs k vm),
                           \<lambda>(k, vm, e, prev, head). if IN_STACK_P k e then 0 else 1]")
   apply simp
  subgoal for k vm e prev head x y xa ya xb
    using save_env_move_live[of vm e prev x xa ya k] by (cases "IN_STACK_P k e") auto
  done

declare save_env_loop.simps [simp del]

text \<open>
  \<open>save_env(vm, env_begin)\<close>: a pointer outside the stack is returned as it is.
\<close>

definition save_env :: "vmconst \<Rightarrow> ScmVM \<Rightarrow> ptr \<Rightarrow> ptr \<times> ScmVM" where
  "save_env k vm env_begin =
     (if \<not> IN_STACK_P k env_begin then (env_begin, vm)
      else save_env_loop k vm env_begin NULL NULL)"

text \<open>
  \<open>save_env\<close> writes environment frames and allocates, and nothing else: the VM it returns
  differs from the one it was given in \<open>envs\<close> and \<open>heapNext\<close> only, and \<open>heapNext\<close> does not
  decrease.
\<close>

definition envs_only :: "ScmVM \<Rightarrow> ScmVM \<Rightarrow> bool" where
  "envs_only vm vm' = (vm' = vm\<lparr>envs := envs vm', heapNext := heapNext vm'\<rparr> \<and> heapNext vm \<le> heapNext vm')"

lemma envs_only_refl: "envs_only vm vm"
  by (simp add: envs_only_def)

lemma envs_only_trans:
  assumes "envs_only a b" "envs_only b c" shows "envs_only a c"
proof -
  have b: "b = a\<lparr>envs := envs b, heapNext := heapNext b\<rparr>" and c: "c = b\<lparr>envs := envs c, heapNext := heapNext c\<rparr>"
    and le: "heapNext a \<le> heapNext b" "heapNext b \<le> heapNext c"
    using assms by (simp_all add: envs_only_def)
  have "c = a\<lparr>envs := envs b, heapNext := heapNext b\<rparr>\<lparr>envs := envs c, heapNext := heapNext c\<rparr>"
    using b c by simp
  then have "c = a\<lparr>envs := envs c, heapNext := heapNext c\<rparr>" by simp
  then show ?thesis using le by (simp add: envs_only_def)
qed

lemma save_env_forwarded_only: "envs_only vm (save_env_forwarded vm e prev)"
  by (simp add: envs_only_def save_env_forwarded_def)

lemma save_env_move_only: "save_env_move vm e prev = (vm', saved, nxt) \<Longrightarrow> envs_only vm vm'"
  by (cases "prev = NULL") (auto simp: envs_only_def save_env_move_def Let_def)

lemma save_env_loop_only: "envs_only vm (snd (save_env_loop k vm e prev head))"
proof (induction k vm e prev head rule: save_env_loop.induct)
  case (1 k vm e prev head)
  show ?case
  proof (cases "e_size (envs vm e) < 0")
    case True
    then show ?thesis by (subst save_env_loop.simps) (simp add: save_env_forwarded_only)
  next
    case False
    obtain vm' saved nxt where mv: "save_env_move vm e prev = (vm', saved, nxt)"
      by (cases "save_env_move vm e prev") auto
    note st = save_env_move_only[OF mv]
    show ?thesis
    proof (cases "IN_STACK_P k nxt")
      case True
      have "envs_only vm' (snd (save_env_loop k vm' nxt saved (if head = NULL then saved else head)))"
        using 1[OF False mv[symmetric] refl refl True] .
      then have "envs_only vm (snd (save_env_loop k vm' nxt saved (if head = NULL then saved else head)))"
        using st envs_only_trans by blast
      then show ?thesis using False mv True
        by (subst save_env_loop.simps) (simp add: Let_def)
    next
      case F2: False
      then show ?thesis using False mv st
        by (subst save_env_loop.simps) (simp add: Let_def)
    qed
  qed
qed

lemma save_env_only: "envs_only vm (snd (save_env k vm e))"
  by (simp add: save_env_def envs_only_refl save_env_loop_only)


text \<open>
  The first pass of \<open>save_cont\<close>, one iteration. \<open>save_cont_env\<close> is the update of \<open>c->env\<close>
  (the forwarding target of a forwarded frame, or the result of \<open>save_env\<close> on an in-stack
  frame). \<open>save_cont_move\<close> allocates \<open>csave\<close>, updates \<open>c->env\<close>, copies the frame (a Scheme
  frame with its \<open>size\<close> arguments read from \<open>c->argp\<close> and \<open>argp\<close> set to the words after the
  header of the copy; a C continuation with its header and \<open>size\<close> data words), links the
  previous copy to \<open>csave\<close>, and makes \<open>c\<close> a forwarding frame: \<open>prev\<close> is \<open>csave\<close> and \<open>size\<close>
  is -1. It returns the new state, \<open>csave\<close> and the old \<open>c->prev\<close>.
\<close>

definition save_cont_env :: "vmconst \<Rightarrow> ScmVM \<Rightarrow> ptr \<Rightarrow> ScmVM" where
  "save_cont_env k vm c =
     (let ce = c_env (conts vm c) in
      if FORWARDED_ENV_P vm ce
      then vm\<lparr>conts := (conts vm)(c := (conts vm c)\<lparr>c_env := e_up (envs vm ce)\<rparr>)\<rparr>
      else if IN_STACK_P k ce
      then (case save_env k vm ce of
              (e', vm') \<Rightarrow> vm'\<lparr>conts := (conts vm')(c := (conts vm' c)\<lparr>c_env := e'\<rparr>)\<rparr>)
      else vm)"

definition save_cont_move :: "vmconst \<Rightarrow> ScmVM \<Rightarrow> ptr \<Rightarrow> ptr \<Rightarrow> ScmVM \<times> ptr \<times> ptr" where
  "save_cont_move k vm c prev =
     (let csave = Heap (heapNext vm) 0;
          vm1 = save_cont_env k (vm\<lparr>heapNext := heapNext vm + 1\<rparr>) c;
          fr = conts vm1 c;
          copy = (if c_argp fr \<noteq> NULL
                  then fr\<lparr>c_data := read_words vm1 (c_argp fr) (nat (c_size fr)),
                          c_argp := Heap (heapNext vm) (CONT_FRAME_SIZE k)\<rparr>
                  else fr\<lparr>c_data := take (nat (c_size fr)) (c_data fr)\<rparr>);
          vm2 = vm1\<lparr>conts := (conts vm1)(csave := copy)\<rparr>;
          vm3 = (if prev \<noteq> NULL
                 then vm2\<lparr>conts := (conts vm2)(prev := (conts vm2 prev)\<lparr>c_prev := csave\<rparr>)\<rparr>
                 else vm2);
          tmp = c_prev (conts vm3 c);
          vm4 = vm3\<lparr>conts := (conts vm3)(c := (conts vm3 c)\<lparr>c_prev := csave, c_size := -1\<rparr>)\<rparr>
      in (vm4, csave, tmp))"

text \<open>
  The in-stack frames whose \<open>prev\<close> lies in the stack. Each iteration of the first pass
  replaces the \<open>prev\<close> of an in-stack frame by a heap pointer, which bounds the loop.
\<close>

definition linked_conts :: "vmconst \<Rightarrow> ScmVM \<Rightarrow> nat set" where
  "linked_conts k vm = {n. n < SCM_VM_STACK_SIZE k \<and> IN_STACK_P k (c_prev (conts vm (Stk n)))}"

lemma finite_linked_conts: "finite (linked_conts k vm)"
  by (simp add: linked_conts_def)

lemma envs_onlyD:
  assumes "envs_only vm vm'"
  shows "conts vm' = conts vm" "heapNext vm \<le> heapNext vm'"
proof -
  have eq: "vm' = vm\<lparr>envs := envs vm', heapNext := heapNext vm'\<rparr>"
    using assms by (simp add: envs_only_def)
  have "conts vm' = conts (vm\<lparr>envs := envs vm', heapNext := heapNext vm'\<rparr>)"
    using eq by simp
  then show "conts vm' = conts vm" by simp
  show "heapNext vm \<le> heapNext vm'" using assms by (simp add: envs_only_def)
qed

lemma save_cont_env_prev: "c_prev (conts (save_cont_env k vm c) p) = c_prev (conts vm p)"
proof -
  have "conts (snd (save_env k vm e)) = conts vm" for e
    using envs_onlyD(1)[OF save_env_only] .
  then show ?thesis
    by (auto simp: save_cont_env_def Let_def split: prod.splits) (metis snd_conv)+
qed

lemma save_cont_move_prev:
  assumes mv: "save_cont_move k vm c prev = (vm', csave, tmp)"
  shows "csave = Heap (heapNext vm) 0"
    and "c_prev (conts vm' c) = csave"
    and "IN_STACK_P k tmp \<Longrightarrow> tmp = c_prev (conts vm c)"
    and "Stk m \<noteq> c \<Longrightarrow> IN_STACK_P k (c_prev (conts vm' (Stk m))) \<Longrightarrow> IN_STACK_P k (c_prev (conts vm (Stk m)))"
proof -
  let ?vm1 = "save_cont_env k (vm\<lparr>heapNext := heapNext vm + 1\<rparr>) c"
  have p1: "c_prev (conts ?vm1 p) = c_prev (conts vm p)" for p
    by (simp add: save_cont_env_prev)
  show cs: "csave = Heap (heapNext vm) 0" using mv by (auto simp: save_cont_move_def Let_def)
  show "c_prev (conts vm' c) = csave" using mv by (auto simp: save_cont_move_def Let_def)
  have nst: "\<not> IN_STACK_P k csave" using cs by (simp add: IN_STACK_P_def)
  have tmp: "tmp = (if prev \<noteq> NULL \<and> prev = c then csave else c_prev (conts vm c))"
    using mv p1 by (auto simp: save_cont_move_def Let_def)
  show "IN_STACK_P k tmp \<Longrightarrow> tmp = c_prev (conts vm c)"
    using tmp nst by (auto split: if_splits)
  have "c_prev (conts vm' (Stk m)) = (if prev \<noteq> NULL \<and> prev = Stk m then csave else c_prev (conts vm (Stk m)))"
    if "Stk m \<noteq> c"
    using mv p1 that by (auto simp: save_cont_move_def Let_def)
  then show "Stk m \<noteq> c \<Longrightarrow> IN_STACK_P k (c_prev (conts vm' (Stk m))) \<Longrightarrow> IN_STACK_P k (c_prev (conts vm (Stk m)))"
    using nst by (auto split: if_splits)
qed

lemma save_cont_move_linked:
  assumes mv: "save_cont_move k vm c prev = (vm', csave, tmp)" and st: "IN_STACK_P k tmp"
  shows "(IN_STACK_P k c \<longrightarrow> card (linked_conts k vm') < card (linked_conts k vm))
       \<and> (\<not> IN_STACK_P k c \<longrightarrow> card (linked_conts k vm') \<le> card (linked_conts k vm))"
proof -
  note f = save_cont_move_prev[OF mv]
  have nst: "\<not> IN_STACK_P k csave" using f(1) by (simp add: IN_STACK_P_def)
  show ?thesis
  proof (cases "IN_STACK_P k c")
    case True
    then obtain n where n: "c = Stk n" "n < SCM_VM_STACK_SIZE k"
      by (auto simp: IN_STACK_P_def split: ptr.splits)
    have "n \<notin> linked_conts k vm'" using f(2) nst n by (simp add: linked_conts_def)
    moreover have "n \<in> linked_conts k vm" using f(3)[OF st] st n by (simp add: linked_conts_def)
    moreover have "x \<in> linked_conts k vm' \<Longrightarrow> x \<in> linked_conts k vm" for x
      using f(4)[of x] f(2) nst n by (cases "x = n") (auto simp: linked_conts_def)
    ultimately have "linked_conts k vm' \<subset> linked_conts k vm" by blast
    then show ?thesis using True finite_linked_conts psubset_card_mono by blast
  next
    case False
    have "x \<in> linked_conts k vm' \<Longrightarrow> x \<in> linked_conts k vm" for x
    proof -
      assume x: "x \<in> linked_conts k vm'"
      then have "x < SCM_VM_STACK_SIZE k" by (simp add: linked_conts_def)
      then have "Stk x \<noteq> c" using False by (auto simp: IN_STACK_P_def)
      then show ?thesis using f(4)[of x] x by (simp add: linked_conts_def)
    qed
    then have "linked_conts k vm' \<subseteq> linked_conts k vm" by blast
    then show ?thesis using False finite_linked_conts card_mono by blast
  qed
qed

text \<open>
  The first pass, \<open>do ... while (IN_STACK_P(c))\<close>, with the loop variables \<open>c\<close> and \<open>prev\<close>.
\<close>

function save_cont_pass1 :: "vmconst \<Rightarrow> ScmVM \<Rightarrow> ptr \<Rightarrow> ptr \<Rightarrow> ScmVM" where
  "save_cont_pass1 k vm c prev =
     (case save_cont_move k vm c prev of (vm', csave, tmp) \<Rightarrow>
        if IN_STACK_P k tmp then save_cont_pass1 k vm' tmp csave else vm')"
  by pat_completeness auto
termination
  apply (relation "measures [\<lambda>(k, vm, c, prev). card (linked_conts k vm),
                           \<lambda>(k, vm, c, prev). if IN_STACK_P k c then 0 else 1]")
   apply simp
  subgoal for k vm c prev x y xa ya
    using save_cont_move_linked[of k vm c prev x xa ya] by (cases "IN_STACK_P k c") auto
  done

declare save_cont_pass1.simps [simp del]


text \<open>
  The second pass: the loop over the host-stack records from \<open>vm->cstack\<close> and the loop
  over escape points, run once from \<open>vm->escapePoint\<close> along \<open>prev\<close> and once from
  \<open>SCM_VM_FLOATING_EP(vm)\<close> along \<open>floating\<close>. A \<open>cont\<close> field that addresses a forwarded
  frame is replaced by that frame's \<open>prev\<close>.
\<close>

fun save_cont_cstk_loop :: "ScmVM \<Rightarrow> nat list \<Rightarrow> ScmVM" where
  "save_cont_cstk_loop vm [] = vm"
| "save_cont_cstk_loop vm (cstk # rest) =
     save_cont_cstk_loop
       (if FORWARDED_CONT_P vm (cs_cont vm cstk)
        then vm\<lparr>cs_cont := (cs_cont vm)(cstk := c_prev (conts vm (cs_cont vm cstk)))\<rparr>
        else vm) rest"

fun save_cont_ep_loop :: "ScmVM \<Rightarrow> nat list \<Rightarrow> ScmVM" where
  "save_cont_ep_loop vm [] = vm"
| "save_cont_ep_loop vm (ep # rest) =
     save_cont_ep_loop
       (if FORWARDED_CONT_P vm (ep_cont (eps vm ep))
        then vm\<lparr>eps := (eps vm)(ep := (eps vm ep)\<lparr>ep_cont := c_prev (conts vm (ep_cont (eps vm ep)))\<rparr>)\<rparr>
        else vm) rest"

text \<open>
  \<open>save_cont\<close>: the environment chain is saved first; when \<open>vm->cont\<close> is outside the stack
  the function returns at once, and neither pass runs.
\<close>

definition save_cont :: "vmconst \<Rightarrow> ScmVM \<Rightarrow> ScmVM" where
  "save_cont k vm =
     (let c = cont vm;
          vm0 = (case save_env k vm (env vm) of (e, vm') \<Rightarrow> vm'\<lparr>env := e\<rparr>)
      in if \<not> IN_STACK_P k c then vm0
         else
           let vm1 = save_cont_pass1 k vm0 c NULL;
               vm2 = (if FORWARDED_CONT_P vm1 (cont vm1)
                      then vm1\<lparr>cont := c_prev (conts vm1 (cont vm1))\<rparr> else vm1);
               vm3 = save_cont_cstk_loop vm2 (cstack vm2);
               vm4 = save_cont_ep_loop vm3 (escapePoint vm3)
           in save_cont_ep_loop vm4 (floatingEP vm4))"

text \<open>
  \<open>save_stack\<close>: \<open>save_cont\<close>, then \<open>memmove\<close> of the words between \<open>argp\<close> and \<open>sp\<close> to the
  stack base, the two register updates and the loop \<open>for (p = vm->sp; p < vm->stackEnd; p++) *p = NULL\<close>
  (\<open>clear_stack\<close>). The statistics kept under \<open>HAVE_GETTIMEOFDAY\<close> touch no field of the
  model and are left out.

  A frame in the stack is made of stack words, so both steps act on the frame stores at
  stack addresses as they act on the value words. \<open>memmove\<close> moves what lies in the source
  block, of every kind: after it the address \<open>dst + j\<close> holds what \<open>src + j\<close> held (\<open>moved\<close>).
  The clearing loop zeroes a word, and with it the frame that starts there: a forwarded frame
  left behind by \<open>save_cont\<close> reads as the null frame afterwards. A frame is addressed by its
  first word; one that lies across the end of the moved or of the cleared block is not
  considered.
\<close>

definition moved :: "nat \<Rightarrow> nat \<Rightarrow> nat \<Rightarrow> (ptr \<Rightarrow> 'a) \<Rightarrow> ptr \<Rightarrow> 'a" where
  "moved dst src n f p =
     (case p of Stk i \<Rightarrow> if dst \<le> i \<and> i < dst + n then f (Stk (src + (i - dst))) else f p
              | _ \<Rightarrow> f p)"

function clear_stack :: "ScmVM \<Rightarrow> nat \<Rightarrow> ScmVM" where
  "clear_stack vm p =
     (if p < stackEnd vm
      then clear_stack (vm\<lparr>stack := (stack vm)(p := NULLW),
                            conts := (conts vm)(Stk p := zero_cont),
                            envs := (envs vm)(Stk p := zero_env)\<rparr>) (p + 1)
      else vm)"
  by pat_completeness auto
termination
  by (relation "measure (\<lambda>(vm, p). stackEnd vm - p)") auto

declare clear_stack.simps [simp del]

definition memmove_stack :: "ScmVM \<Rightarrow> nat \<Rightarrow> nat \<Rightarrow> nat \<Rightarrow> ScmVM" where
  "memmove_stack vm dst src n =
     vm\<lparr>stack := (\<lambda>i. if dst \<le> i \<and> i < dst + n then stack vm (src + (i - dst)) else stack vm i),
        conts := moved dst src n (conts vm),
        envs := moved dst src n (envs vm)\<rparr>"

definition save_stack :: "vmconst \<Rightarrow> ScmVM \<Rightarrow> ScmVM" where
  "save_stack k vm =
     (let vm1 = save_cont k vm;
          vm2 = memmove_stack vm1 0 (argp vm1) (sp vm1 - argp vm1);
          vm3 = vm2\<lparr>sp := sp vm2 - (argp vm2 - 0)\<rparr>;
          vm4 = vm3\<lparr>argp := 0\<rparr>
      in clear_stack vm4 (sp vm4))"

text \<open>
  The macros \<open>CHECK_STACK\<close>, \<open>PUSH_ARG\<close> and \<open>PUSH_CONT\<close>, and the functions
  \<open>Scm_VMApply0\<close>, \<open>Scm_VMApply1\<close> and \<open>Scm_VMPushCC\<close>. A frame pushed at \<open>sp\<close> is written to
  \<open>conts\<close> at \<open>Stk sp\<close>; the data of a C continuation are the words after its header.
  \<open>Scm_VMApply0\<close> and \<open>Scm_VMApply1\<close> set \<open>pc\<close> to the static code fragment for the number of
  arguments and return the procedure.
\<close>

definition CHECK_STACK :: "vmconst \<Rightarrow> ScmVM \<Rightarrow> nat \<Rightarrow> ScmVM" where
  "CHECK_STACK k vm sz = (if sp vm \<ge> stackEnd vm - sz then save_stack k vm else vm)"

definition PUSH_ARG :: "ScmVM \<Rightarrow> ScmObj \<Rightarrow> ScmVM" where
  "PUSH_ARG vm obj = vm\<lparr>stack := (stack vm)(sp vm := ObjW obj), sp := sp vm + 1\<rparr>"

definition PUSH_CONT :: "vmconst \<Rightarrow> ScmVM \<Rightarrow> pcval \<Rightarrow> ScmVM" where
  "PUSH_CONT k vm next_pc =
     (let newcont = Stk (sp vm);
          fr = (conts vm newcont)\<lparr>c_prev := cont vm, c_env := env vm, c_argp := Stk (argp vm),
                 c_size := int (sp vm) - int (argp vm), c_pc := next_pc, c_base := base vm\<rparr>;
          vm1 = vm\<lparr>conts := (conts vm)(newcont := fr), cont := newcont\<rparr>;
          vm2 = vm1\<lparr>sp := sp vm1 + CONT_FRAME_SIZE k\<rparr>
      in vm2\<lparr>argp := sp vm2\<rparr>)"

definition Scm_VMApply0 :: "ScmVM \<Rightarrow> ScmObj \<Rightarrow> ScmObj \<times> ScmVM" where
  "Scm_VMApply0 vm proc = (proc, vm\<lparr>pc := apply_calls 0\<rparr>)"

definition Scm_VMApply1 :: "vmconst \<Rightarrow> ScmVM \<Rightarrow> ScmObj \<Rightarrow> ScmObj \<Rightarrow> ScmObj \<times> ScmVM" where
  "Scm_VMApply1 k vm proc arg =
     (let vm1 = CHECK_STACK k vm 1;
          vm2 = PUSH_ARG vm1 arg
      in (proc, vm2\<lparr>pc := apply_calls 1\<rparr>))"

definition Scm_VMPushCC :: "vmconst \<Rightarrow> ScmVM \<Rightarrow> ccont \<Rightarrow> word list \<Rightarrow> ScmVM" where
  "Scm_VMPushCC k vm after data =
     (let datasize = length data;
          vm1 = CHECK_STACK k vm (CONT_FRAME_SIZE k + datasize);
          cc = Stk (sp vm1);
          s = sp vm1 + CONT_FRAME_SIZE k;
          fr = (conts vm1 cc)\<lparr>c_prev := cont vm1, c_argp := NULL, c_size := int datasize,
                 c_pc := CProc after, c_base := base vm1, c_env := env vm1, c_data := data\<rparr>;
          vm2 = vm1\<lparr>conts := (conts vm1)(cc := fr)\<rparr>;
          vm3 = vm2\<lparr>cont := cc\<rparr>
      in vm3\<lparr>sp := s + datasize, argp := s + datasize\<rparr>)"

section \<open>Casts of opaque words\<close>

text \<open>
  The casts a C continuation applies to its \<open>void *data[]\<close>. A word of another kind than
  the cast expects does not occur (each procedure reads what its pusher wrote).
\<close>

fun SCM_OBJ :: "word \<Rightarrow> ScmObj" where
  "SCM_OBJ (ObjW v) = v" | "SCM_OBJ _ = SCM_UNDEFINED"

fun int_of_word :: "word \<Rightarrow> int" where
  "int_of_word (IntW i) = i" | "int_of_word _ = 0"

fun list_of_word :: "word \<Rightarrow> ScmObj list" where
  "list_of_word (ListW xs) = xs" | "list_of_word (ArrW xs) = xs" | "list_of_word _ = []"

fun handlers_of_word :: "word \<Rightarrow> hcell list" where
  "handlers_of_word (HandlersW hs) = hs" | "handlers_of_word _ = []"

fun thunks_of_word :: "word \<Rightarrow> (ScmObj \<times> hcell list) list" where
  "thunks_of_word (ThunksW ts) = ts" | "thunks_of_word _ = []"

fun ep_of_word :: "word \<Rightarrow> nat" where
  "ep_of_word (EpW a) = a" | "ep_of_word _ = 0"

text \<open>\<open>memcpy(dst, src, n * sizeof(ScmObj))\<close> into an array of values.\<close>

definition memcpy_objs :: "ScmObj list \<Rightarrow> ScmObj list \<Rightarrow> nat \<Rightarrow> ScmObj list" where
  "memcpy_objs dst src n = map (\<lambda>i. if i < n \<and> i < length src then src ! i else dst ! i) [0 ..< length dst]"

section \<open>Dynamic handlers\<close>

text \<open>
  \<open>Scm_VMDynamicWind\<close> and its three C continuations. \<open>dynwind_before_cc\<close> conses the pair
  \<open>(before . after)\<close> onto the handler list (two allocations: the pair and the list cell; the
  pair's address identifies it); \<open>dynwind_body_cc\<close> restores the handler list and saves the
  result with \<open>numVals\<close> and, when there is more than one value, an array of the first
  \<open>numVals - 1\<close> entries of \<open>vals\<close> (with at most one value \<open>d[2]\<close> is left unset, here the
  null word); \<open>dynwind_after_cc\<close> puts them back. \<open>Scm_VMDynamicWind\<close> does not check the
  types of its arguments.
\<close>

definition Scm_VMDynamicWind :: "vmconst \<Rightarrow> ScmVM \<Rightarrow> ScmObj \<Rightarrow> ScmObj \<Rightarrow> ScmObj \<Rightarrow> ScmObj \<times> ScmVM" where
  "Scm_VMDynamicWind k vm before body after =
     Scm_VMApply0 (Scm_VMPushCC k vm Dynwind_before_cc [ObjW before, ObjW body, ObjW after]) before"

definition dynwind_before_cc :: "vmconst \<Rightarrow> ScmVM \<Rightarrow> ScmObj \<Rightarrow> word list \<Rightarrow> ScmObj \<times> ScmVM" where
  "dynwind_before_cc k vm result data =
     (let before = SCM_OBJ (data ! 0);
          body = SCM_OBJ (data ! 1);
          after = SCM_OBJ (data ! 2);
          prev = handlers vm;
          d = [ObjW after, HandlersW prev];
          vm1 = vm\<lparr>handlers := HCell (heapNext vm) before after # prev, heapNext := heapNext vm + 2\<rparr>;
          vm2 = Scm_VMPushCC k vm1 Dynwind_body_cc d
      in Scm_VMApply0 vm2 body)"

definition dynwind_body_cc :: "vmconst \<Rightarrow> ScmVM \<Rightarrow> ScmObj \<Rightarrow> word list \<Rightarrow> ScmObj \<times> ScmVM" where
  "dynwind_body_cc k vm result data =
     (let after = SCM_OBJ (data ! 0);
          prev = handlers_of_word (data ! 1);
          vm1 = vm\<lparr>handlers := prev\<rparr>;
          d = [ObjW result, IntW (numVals vm1),
               if numVals vm1 > 1 then ArrW (take (nat (numVals vm1 - 1)) (vals vm1)) else NULLW];
          vm2 = (if numVals vm1 > 1 then vm1\<lparr>heapNext := heapNext vm1 + 1\<rparr> else vm1);
          vm3 = Scm_VMPushCC k vm2 Dynwind_after_cc d
      in Scm_VMApply0 vm3 after)"

definition dynwind_after_cc ::
  "vmconst \<Rightarrow> ScmVM \<Rightarrow> ScmObj \<Rightarrow> word list \<Rightarrow> (error \<times> ScmVM) + (ScmObj \<times> ScmVM)" where
  "dynwind_after_cc k vm result data =
     (let v0 = SCM_OBJ (data ! 0);
          nvals = int_of_word (data ! 1);
          vm1 = vm\<lparr>numVals := nvals\<rparr>
      in if nvals > 1
         then if \<not> nvals \<le> int (SCM_VM_MAX_VALUES k)
              then Inl (Scm_Assert ''nvals <= SCM_VM_MAX_VALUES'', vm1)
              else Inr (v0, vm1\<lparr>vals := memcpy_objs (vals vm1) (list_of_word (data ! 2)) (nat (nvals - 1))\<rparr>)
         else Inr (v0, vm1))"

section \<open>Call with current continuation\<close>

text \<open>
  \<open>throw_cont_calculate_handlers\<close>. \<open>Scm_Memq\<close> returns the tail of the list that starts at
  the element, or nothing (\<open>SCM_FALSE\<close>). The first loop walks the current handlers and stops
  at the first cell that is in the target; the second walks the reversed target list, skips
  the cells that are current, and pairs a before-thunk with \<open>SCM_CDR(chain)\<close>, where \<open>chain\<close>
  is the position of the cell in \<open>ep->handlers\<close>. \<open>SCM_APPEND1\<close> adds at the end of \<open>h\<close>.
\<close>

fun Scm_Memq :: "'a \<Rightarrow> 'a list \<Rightarrow> 'a list option" where
  "Scm_Memq x [] = None"
| "Scm_Memq x (y # ys) = (if x = y then Some (y # ys) else Scm_Memq x ys)"

fun calculate_after_loop ::
  "hcell list \<Rightarrow> (ScmObj \<times> hcell list) list \<Rightarrow> hcell list \<Rightarrow> (ScmObj \<times> hcell list) list" where
  "calculate_after_loop target h [] = h"
| "calculate_after_loop target h (c # p) =
     (if Scm_Memq c target \<noteq> None then h
      else calculate_after_loop target (h @ [(cell_after c, p)]) p)"

fun calculate_before_loop ::
  "hcell list \<Rightarrow> hcell list \<Rightarrow> (ScmObj \<times> hcell list) list \<Rightarrow> hcell list
   \<Rightarrow> error + (ScmObj \<times> hcell list) list" where
  "calculate_before_loop current ephandlers h [] = Inr h"
| "calculate_before_loop current ephandlers h (c # p) =
     (if Scm_Memq c current \<noteq> None then calculate_before_loop current ephandlers h p
      else case Scm_Memq c ephandlers of
             None \<Rightarrow> Inl (Scm_Assert ''SCM_PAIRP(chain)'')
           | Some chain \<Rightarrow> calculate_before_loop current ephandlers (h @ [(cell_before c, tl chain)]) p)"

definition throw_cont_calculate_handlers ::
  "nat \<Rightarrow> ScmVM \<Rightarrow> error + (ScmObj \<times> hcell list) list" where
  "throw_cont_calculate_handlers ep vm =
     (let target = rev (ep_handlers (eps vm ep));
          current = handlers vm;
          h = calculate_after_loop target [] current
      in calculate_before_loop current (ep_handlers (eps vm ep)) h target)"

text \<open>
  \<open>throw_cont_body\<close>. With handlers left to call, the first is called on a
  \<open>throw_cont_cc\<close> frame that carries the rest. Otherwise the continuation is installed:
  \<open>save_cont\<close> when the escape point has no host-stack record, then \<open>pc\<close>, \<open>cont\<close> and
  \<open>handlers\<close>; one argument is returned as it is, no argument returns the undefined value,
  \<open>nargs >= SCM_VM_MAX_VALUES\<close> is the error, and otherwise the rest of the arguments is
  stored in \<open>vals\<close> and \<open>numVals\<close> is set.
\<close>

fun throw_cont_vals_loop :: "ScmVM \<Rightarrow> nat \<Rightarrow> ScmObj list \<Rightarrow> ScmVM" where
  "throw_cont_vals_loop vm i [] = vm"
| "throw_cont_vals_loop vm i (x # ap) = throw_cont_vals_loop (vm\<lparr>vals := (vals vm)[i := x]\<rparr>) (i + 1) ap"

definition throw_cont_body ::
  "vmconst \<Rightarrow> ScmVM \<Rightarrow> (ScmObj \<times> hcell list) list \<Rightarrow> nat \<Rightarrow> ScmObj list
   \<Rightarrow> (error \<times> ScmVM) + (ScmObj \<times> ScmVM)" where
  "throw_cont_body k vm hs ep args =
     (case hs of
        (handler, chain) # rest \<Rightarrow>
          (let data = [ThunksW rest, EpW ep, ListW args];
               vm1 = Scm_VMPushCC k vm Throw_cont_cc data;
               vm2 = vm1\<lparr>handlers := chain\<rparr>
           in Inr (Scm_VMApply0 vm2 handler))
      | [] \<Rightarrow>
          (let vm1 = (if ep_cstack (eps vm ep) = None then save_cont k vm else vm);
               vm2 = vm1\<lparr>pc := PC_TO_RETURN\<rparr>;
               vm3 = vm2\<lparr>cont := ep_cont (eps vm2 ep)\<rparr>;
               vm4 = vm3\<lparr>handlers := ep_handlers (eps vm3 ep)\<rparr>;
               nargs = length args
           in if nargs = 1 then Inr (hd args, vm4)
              else if nargs < 1 then Inr (SCM_UNDEFINED, vm4)
              else if nargs \<ge> SCM_VM_MAX_VALUES k
              then Inl (Scm_Error ''too many values passed to the continuation'' [], vm4)
              else let vm5 = throw_cont_vals_loop vm4 0 (tl args)
                   in Inr (hd args, vm5\<lparr>numVals := int nargs\<rparr>)))"

definition throw_cont_cc ::
  "vmconst \<Rightarrow> ScmVM \<Rightarrow> ScmObj \<Rightarrow> word list \<Rightarrow> (error \<times> ScmVM) + (ScmObj \<times> ScmVM)" where
  "throw_cont_cc k vm result data =
     throw_cont_body k vm (thunks_of_word (data ! 0)) (ep_of_word (data ! 1)) (list_of_word (data ! 2))"

text \<open>
  \<open>throw_continuation\<close>. The loop over \<open>vm->cstack\<close> looks for the record of the escape
  point; when the record is another one than the current and is found on the chain, the
  function leaves by \<open>siglongjmp\<close> with the escape reason and data set. In every other case
  the handlers are computed and \<open>throw_cont_body\<close> runs. \<open>cstack_ptr\<close> is \<open>vm->cstack\<close> as a
  pointer: the address of the innermost record, or NULL.
\<close>

fun find_cstack :: "nat option \<Rightarrow> nat list \<Rightarrow> nat option" where
  "find_cstack target [] = None"
| "find_cstack target (cs # rest) = (if target = Some cs then Some cs else find_cstack target rest)"

definition cstack_ptr :: "ScmVM \<Rightarrow> nat option" where
  "cstack_ptr vm = (case cstack vm of [] \<Rightarrow> None | cs # _ \<Rightarrow> Some cs)"

definition throw_continuation ::
  "vmconst \<Rightarrow> ScmVM \<Rightarrow> ScmObj list \<Rightarrow> nat \<Rightarrow> (error \<times> ScmVM) + (ScmObj \<times> ScmVM)" where
  "throw_continuation k vm args ep =
     (if ep_cstack (eps vm ep) \<noteq> None \<and> cstack_ptr vm \<noteq> ep_cstack (eps vm ep)
         \<and> find_cstack (ep_cstack (eps vm ep)) (cstack vm) \<noteq> None
      then Inl (Siglongjmp, vm\<lparr>escapeReason := SCM_VM_ESCAPE_CONT, escapeData := (Some ep, ListW args)\<rparr>)
      else case throw_cont_calculate_handlers ep vm of
             Inl e \<Rightarrow> Inl (e, vm)
           | Inr handlers_to_call \<Rightarrow> throw_cont_body k vm handlers_to_call ep args)"

text \<open>
  \<open>Scm_VMCallCC\<close>: \<open>save_cont\<close>, a new escape point that records \<open>cont\<close>, \<open>handlers\<close> and
  \<open>cstack\<close>, and the call of \<open>proc\<close> on the continuation procedure made by \<open>Scm_MakeSubr\<close>.
  The escape point has \<open>prev = NULL\<close> and is put on no chain.
\<close>

definition Scm_VMCallCC :: "vmconst \<Rightarrow> ScmVM \<Rightarrow> ScmObj \<Rightarrow> ScmObj \<times> ScmVM" where
  "Scm_VMCallCC k vm proc =
     (let vm1 = save_cont k vm;
          ep = heapNext vm1;
          vm2 = vm1\<lparr>heapNext := heapNext vm1 + 1\<rparr>;
          vm3 = vm2\<lparr>eps := (eps vm2)(ep := (eps vm2 ep)\<lparr>ep_ehandler := SCM_FALSE, ep_cont := cont vm2,
                                   ep_handlers := handlers vm2, ep_cstack := cstack_ptr vm2\<rparr>)\<rparr>;
          contproc = Continuation ep
      in Scm_VMApply1 k vm3 proc contproc)"

section \<open>Multiple values\<close>

text \<open>
  \<open>Scm_VMValues\<close>. The loop \<open>SCM_FOR_EACH(cp, SCM_CDR(args))\<close> stores a value, then tests
  and increments \<open>nvals\<close>; the error leaves the values written so far in \<open>vals\<close>.
\<close>

fun Scm_VMValues_loop ::
  "vmconst \<Rightarrow> ScmObj list \<Rightarrow> ScmVM \<Rightarrow> nat \<Rightarrow> ScmObj list \<Rightarrow> (error \<times> ScmVM) + (nat \<times> ScmVM)" where
  "Scm_VMValues_loop k args vm nvals [] = Inr (nvals, vm)"
| "Scm_VMValues_loop k args vm nvals (x # cp) =
     (let vm' = vm\<lparr>vals := (vals vm)[nvals - 1 := x]\<rparr> in
      if nvals \<ge> SCM_VM_MAX_VALUES k then Inl (Scm_Error ''too many values: %S'' args, vm')
      else Scm_VMValues_loop k args vm' (nvals + 1) cp)"

definition Scm_VMValues :: "vmconst \<Rightarrow> ScmVM \<Rightarrow> ScmObj list \<Rightarrow> (error \<times> ScmVM) + (ScmObj \<times> ScmVM)" where
  "Scm_VMValues k vm args =
     (case args of
        [] \<Rightarrow> Inr (SCM_UNDEFINED, vm\<lparr>numVals := 0\<rparr>)
      | a # rest \<Rightarrow>
          (case Scm_VMValues_loop k args vm 1 rest of
             Inl e \<Rightarrow> Inl e
           | Inr (nvals, vm') \<Rightarrow> Inr (a, vm'\<lparr>numVals := int nvals\<rparr>)))"

text \<open>
  \<open>Scm_VMGetResult\<close>: the list of \<open>val0\<close> and \<open>vals[0 .. numVals-2]\<close>, or the empty list
  when \<open>numVals\<close> is 0.
\<close>

definition Scm_VMGetResult :: "ScmVM \<Rightarrow> ScmObj list" where
  "Scm_VMGetResult vm =
     (if numVals vm = 0 then []
      else val0 vm # map (\<lambda>i. vals vm ! (i - 1)) [1 ..< nat (numVals vm)])"

text \<open>\<open>Scm_VMSetResult\<close>, the single-value case every ordinary instruction follows.\<close>

definition Scm_VMSetResult :: "ScmVM \<Rightarrow> ScmObj \<Rightarrow> ScmVM" where
  "Scm_VMSetResult vm obj = vm\<lparr>val0 := obj, numVals := 1\<rparr>"

text \<open>
  The C continuation \<open>process_queued_requests_cc\<close> and the dispatch \<open>CALL_CCONT(p, v, d)\<close> on
  the procedure a frame names.
\<close>

definition process_queued_requests_cc :: "vmconst \<Rightarrow> ScmVM \<Rightarrow> ScmObj \<Rightarrow> word list \<Rightarrow> ScmObj \<times> ScmVM" where
  "process_queued_requests_cc k vm result data =
     (let vm1 = vm\<lparr>numVals := int_of_word (data ! 0)\<rparr>;
          vm2 = vm1\<lparr>val0 := SCM_OBJ (data ! 1)\<rparr>;
          vm3 = (if numVals vm2 > 1
                 then vm2\<lparr>vals := memcpy_objs (vals vm2) (list_of_word (data ! 2)) (nat (numVals vm2 - 1))\<rparr>
                 else vm2)
      in (val0 vm3, vm3))"

definition CALL_CCONT ::
  "vmconst \<Rightarrow> ScmVM \<Rightarrow> ccont \<Rightarrow> ScmObj \<Rightarrow> word list \<Rightarrow> (error \<times> ScmVM) + (ScmObj \<times> ScmVM)" where
  "CALL_CCONT k vm p v d =
     (case p of
        Dynwind_before_cc \<Rightarrow> Inr (dynwind_before_cc k vm v d)
      | Dynwind_body_cc \<Rightarrow> Inr (dynwind_body_cc k vm v d)
      | Dynwind_after_cc \<Rightarrow> dynwind_after_cc k vm v d
      | Throw_cont_cc \<Rightarrow> throw_cont_cc k vm v d
      | Process_queued_requests_cc \<Rightarrow> Inr (process_queued_requests_cc k vm v d))"

text \<open>
  \<open>POP_CONT\<close>, in its three branches: a C continuation (the data are copied out, the
  registers restored and the procedure called on \<open>val0\<close>), a Scheme frame in the stack, and
  a Scheme frame in the heap, whose arguments are copied back to the stack base.
  \<open>write_words\<close> is that copy, \<open>stk_off\<close> the offset of a stack pointer.
\<close>

definition write_words :: "ScmVM \<Rightarrow> nat \<Rightarrow> word list \<Rightarrow> nat \<Rightarrow> ScmVM" where
  "write_words vm dst ws n =
     vm\<lparr>stack := (\<lambda>i. if dst \<le> i \<and> i < dst + n \<and> i - dst < length ws then ws ! (i - dst)
                       else stack vm i)\<rparr>"

fun stk_off :: "ptr \<Rightarrow> nat" where
  "stk_off (Stk n) = n" | "stk_off _ = 0"

definition POP_CONT :: "vmconst \<Rightarrow> ScmVM \<Rightarrow> (error \<times> ScmVM) + ScmVM" where
  "POP_CONT k vm =
     (let c = cont vm; fr = conts vm c in
      if c_argp fr = NULL then
        (let data = take (nat (c_size fr)) (c_data fr);
             v = val0 vm;
             vm1 = (if IN_STACK_P k c then vm\<lparr>sp := stk_off c\<rparr> else vm);
             vm2 = vm1\<lparr>env := c_env fr\<rparr>;
             vm3 = vm2\<lparr>argp := sp vm2\<rparr>;
             vm4 = vm3\<lparr>pc := PC_TO_RETURN, base := c_base fr, cont := c_prev fr\<rparr>
         in case c_pc fr of
              CProc after \<Rightarrow>
                (case CALL_CCONT k vm4 after v data of
                   Inl e \<Rightarrow> Inl e
                 | Inr (r, vm5) \<Rightarrow> Inr (vm5\<lparr>val0 := r\<rparr>))
            | _ \<Rightarrow> Inl (Undefined_behaviour, vm4))
      else if IN_STACK_P k c then
        Inr (vm\<lparr>sp := nat (int (stk_off (c_argp fr)) + c_size fr), env := c_env fr,
                argp := stk_off (c_argp fr), pc := c_pc fr, base := c_base fr, cont := c_prev fr\<rparr>)
      else
        (let size0 = c_size fr;
             vm1 = vm\<lparr>argp := 0, sp := 0, env := c_env fr, pc := c_pc fr, base := c_base fr\<rparr>;
             vm2 = (if size0 \<noteq> 0
                    then (write_words vm1 0 (c_data fr) (nat size0))\<lparr>sp := nat size0\<rparr>
                    else vm1)
         in Inr (vm2\<lparr>cont := c_prev fr\<rparr>)))"


text \<open>
  \<open>user_eval_inner\<close> after \<open>run_loop\<close> has returned normally: the frame is popped when
  \<open>vm->cont\<close> is the \<open>cont\<close> of the host-stack record; when \<open>vm->cont\<close> is NULL it is first
  set to that \<open>cont\<close>; anything else is the ghost-continuation error. Then \<open>pc\<close> is restored
  and the record is unlinked from \<open>vm->cstack\<close>. \<open>cstk\<close> is the address of the record.
\<close>

definition user_eval_inner_return ::
  "vmconst \<Rightarrow> ScmVM \<Rightarrow> nat \<Rightarrow> pcval \<Rightarrow> (error \<times> ScmVM) + (ScmObj \<times> ScmVM)" where
  "user_eval_inner_return k vm cstk prev_pc =
     (let r = (if cont vm = cs_cont vm cstk then
                 (case POP_CONT k vm of Inl e \<Rightarrow> Inl e | Inr vm1 \<Rightarrow> Inr (vm1\<lparr>pc := prev_pc\<rparr>))
               else if cont vm = NULL then
                 (case POP_CONT k (vm\<lparr>cont := cs_cont vm cstk\<rparr>) of
                    Inl e \<Rightarrow> Inl e | Inr vm1 \<Rightarrow> Inr (vm1\<lparr>pc := prev_pc\<rparr>))
               else Inl (Scm_Error ''attempt to return from a ghost continuation.'' [], vm))
      in case r of
           Inl e \<Rightarrow> Inl e
         | Inr vm2 \<Rightarrow> Inr (val0 vm2, vm2\<lparr>cstack := tl (cstack vm2)\<rparr>))"

text \<open>
  \<open>BOUNDARY_FRAME_P(cont)\<close> and \<open>RETURN_OP()\<close>, the return operation of the loop: when the
  current continuation is NULL or a boundary frame, \<open>run_loop\<close> returns to its caller (the
  result \<open>None\<close>); otherwise the continuation is popped. \<open>PC_TO_RETURN\<close> is the address of
  the one-instruction code \<open>return_code\<close>, whose instruction performs this operation.
\<close>

definition BOUNDARY_FRAME_P :: "ScmVM \<Rightarrow> ptr \<Rightarrow> bool" where
  "BOUNDARY_FRAME_P vm c = (c_pc (conts vm c) = boundaryFrameMark)"

definition RETURN_OP :: "vmconst \<Rightarrow> ScmVM \<Rightarrow> ((error \<times> ScmVM) + ScmVM) option" where
  "RETURN_OP k vm =
     (if cont vm = NULL \<or> BOUNDARY_FRAME_P vm (cont vm) then None else Some (POP_CONT k vm))"

section \<open>Exceptions\<close>

text \<open>
  \<open>Scm_VMThrowException\<close>. \<open>Scm_ApplyRec\<close>, the predicate \<open>SCM_SERIOUS_CONDITION_P\<close> and the
  default handler are parameters (record \<open>externs\<close>): \<open>Scm_ApplyRec\<close> runs the VM, and
  \<open>Scm_VMDefaultExceptionHandler\<close> does not return. The loop over escape points calls the
  first \<open>xhandler\<close> that is not the default handler.
\<close>

record externs =
  Scm_ApplyRec :: "ScmObj \<Rightarrow> ScmObj list \<Rightarrow> ScmVM \<Rightarrow> (error \<times> ScmVM) + (ScmObj \<times> ScmVM)"
  SCM_SERIOUS_CONDITION_P :: "ScmObj \<Rightarrow> bool"
  Scm_VMDefaultExceptionHandler :: "ScmObj \<Rightarrow> ScmVM \<Rightarrow> error \<times> ScmVM"

fun throw_exception_loop ::
  "externs \<Rightarrow> ScmVM \<Rightarrow> ScmObj \<Rightarrow> nat list \<Rightarrow> ((error \<times> ScmVM) + (ScmObj \<times> ScmVM)) option" where
  "throw_exception_loop x vm exception [] = None"
| "throw_exception_loop x vm exception (ep # rest) =
     (if ep_xhandler (eps vm ep) \<noteq> DEFAULT_EXCEPTION_HANDLER
      then Some (Scm_ApplyRec x (ep_xhandler (eps vm ep)) [exception] vm)
      else throw_exception_loop x vm exception rest)"

definition Scm_VMThrowException ::
  "externs \<Rightarrow> ScmVM \<Rightarrow> ScmObj \<Rightarrow> (error \<times> ScmVM) + (ScmObj \<times> ScmVM)" where
  "Scm_VMThrowException x vm exception =
     (let ep = escapePoint vm;
          vm0 = vm\<lparr>errorBeingHandled := False\<rparr>
      in if exceptionHandler vm0 \<noteq> DEFAULT_EXCEPTION_HANDLER then
           (case Scm_ApplyRec x (exceptionHandler vm0) [exception] vm0 of
              Inl e \<Rightarrow> Inl e
            | Inr (r, vm1) \<Rightarrow>
                (let vm2 = vm1\<lparr>val0 := r\<rparr> in
                 if SCM_SERIOUS_CONDITION_P x exception
                 then Inl (Scm_Error ''user-defined exception handler returned on non-continuable exception %S''
                             [exception],
                           vm2\<lparr>exceptionHandler := DEFAULT_EXCEPTION_HANDLER\<rparr>)
                 else Inr (val0 vm2, vm2)))
         else
           (case (if \<not> SCM_SERIOUS_CONDITION_P x exception
                  then throw_exception_loop x vm0 exception ep else None) of
              Some r \<Rightarrow> r
            | None \<Rightarrow> Inl (Scm_VMDefaultExceptionHandler x exception vm0)))"

section \<open>Port locks\<close>

text \<open>
  The lock fields of a port (gauche/port.h). \<open>lockOwner\<close> is the owning VM or NULL,
  \<open>lockCount\<close> an \<open>int\<close>; \<open>fastlock_locked\<close> counts the acquisitions of the internal fast
  lock and is not a field of the source. \<open>PORT_LOCK\<close> spins until the port has no live owner:
  the loop may not return, hence the option; each round of the loop takes and releases the
  fast lock, and \<open>Scm_YieldCPU\<close> changes nothing here. \<open>terminated\<close> tells whether a VM's state is
  \<open>SCM_VM_TERMINATED\<close>.
\<close>

record ScmPort =
  lockOwner :: "nat option"
  lockCount :: int
  fastlock_locked :: nat

partial_function (option) PORT_LOCK_loop :: "(nat \<Rightarrow> bool) \<Rightarrow> ScmPort \<Rightarrow> nat \<Rightarrow> ScmPort option" where
  "PORT_LOCK_loop terminated p vm =
     (let p1 = p\<lparr>fastlock_locked := fastlock_locked p + 1\<rparr>;
          p2 = (case lockOwner p1 of
                  None \<Rightarrow> p1\<lparr>lockOwner := Some vm, lockCount := 1\<rparr>
                | Some owner \<Rightarrow>
                    if terminated owner then p1\<lparr>lockOwner := Some vm, lockCount := 1\<rparr> else p1)
      in if lockOwner p2 = Some vm then Some p2 else PORT_LOCK_loop terminated p2 vm)"

definition PORT_LOCK :: "(nat \<Rightarrow> bool) \<Rightarrow> ScmPort \<Rightarrow> nat \<Rightarrow> ScmPort option" where
  "PORT_LOCK terminated p vm =
     (if lockOwner p \<noteq> Some vm then PORT_LOCK_loop terminated p vm
      else Some (p\<lparr>lockCount := lockCount p + 1\<rparr>))"

definition PORT_UNLOCK :: "ScmPort \<Rightarrow> ScmPort" where
  "PORT_UNLOCK p =
     (let p1 = p\<lparr>lockCount := lockCount p - 1\<rparr>
      in if lockCount p1 \<le> 0 then p1\<lparr>lockOwner := None\<rparr> else p1)"

section \<open>A new VM\<close>

text \<open>
  \<open>Scm_NewVM\<close> for a VM without prototype, restricted to the fields of the model. Memory that
  has not been written holds null frames; an escape point that has not been allocated has no
  handler.
\<close>

definition zero_ep :: ScmEscapePoint where
  "zero_ep = \<lparr>ep_ehandler = SCM_FALSE, ep_xhandler = SCM_FALSE, ep_handlers = [], ep_cont = NULL,
               ep_cstack = None, ep_errorReporting = False, ep_rewindBefore = False\<rparr>"

definition Scm_NewVM :: "vmconst \<Rightarrow> ScmVM" where
  "Scm_NewVM k =
     \<lparr>pc = PC_TO_RETURN, sp = 0, argp = 0, env = NULL, cont = NULL, base = None,
      val0 = SCM_UNDEFINED, vals = replicate (SCM_VM_MAX_VALUES k) SCM_UNDEFINED, numVals = 1,
      handlers = [], exceptionHandler = DEFAULT_EXCEPTION_HANDLER,
      escapePoint = [], floatingEP = [], cstack = [],
      escapeReason = SCM_VM_ESCAPE_NONE, escapeData = (None, NULLW), errorBeingHandled = False,
      stackEnd = SCM_VM_STACK_SIZE k, stack = (\<lambda>_. NULLW),
      conts = (\<lambda>_. zero_cont), envs = (\<lambda>_. zero_env), eps = (\<lambda>_. zero_ep),
      cs_cont = (\<lambda>_. NULL), heapNext = 0\<rparr>"

section \<open>Zero values at the public interface\<close>

text \<open>
  C10. \<open>Scm_VMValues\<close> on the empty argument list sets \<open>numVals\<close> to 0 and returns the
  unspecified value, and \<open>Scm_VMGetResult\<close> on the resulting VM (on any VM whose
  \<open>numVals\<close> is 0) returns the empty list: a state with \<open>numVals = 0\<close> is produced by the
  public interface, although \<open>Scm_VMSetResult\<close> leaves \<open>numVals = 1\<close>.
\<close>

theorem zero_values_representable:
  "Scm_VMValues k vm [] = Inr (SCM_UNDEFINED, vm\<lparr>numVals := 0\<rparr>)
   \<and> numVals (vm\<lparr>numVals := 0\<rparr>) = 0
   \<and> numVals (vm\<lparr>numVals := 0\<rparr>) \<noteq> 1
   \<and> Scm_VMGetResult (vm\<lparr>numVals := 0\<rparr>) = []
   \<and> Scm_VMGetResult (vm'\<lparr>numVals := 0\<rparr>) = []
   \<and> numVals (Scm_VMSetResult vm obj) = 1"
  by (simp add: Scm_VMValues_def Scm_VMGetResult_def Scm_VMSetResult_def)

section \<open>What saving the continuation keeps\<close>

text \<open>
  \<open>mem_only\<close>: the two VMs differ in the frame stores and the allocator only. \<open>kept\<close> lists
  the registers and chains that \<open>save_cont\<close> does not write.
\<close>

definition mem_only :: "ScmVM \<Rightarrow> ScmVM \<Rightarrow> bool" where
  "mem_only vm vm' =
     (vm' = vm\<lparr>conts := conts vm', envs := envs vm', heapNext := heapNext vm'\<rparr>)"

lemma mem_only_refl: "mem_only vm vm"
  by (simp add: mem_only_def)

lemma mem_only_trans:
  assumes "mem_only a b" "mem_only b c" shows "mem_only a c"
proof -
  have b: "b = a\<lparr>conts := conts b, envs := envs b, heapNext := heapNext b\<rparr>"
    and c: "c = b\<lparr>conts := conts c, envs := envs c, heapNext := heapNext c\<rparr>"
    using assms by (simp_all add: mem_only_def)
  have "c = a\<lparr>conts := conts b, envs := envs b, heapNext := heapNext b\<rparr>
             \<lparr>conts := conts c, envs := envs c, heapNext := heapNext c\<rparr>"
    using b c by simp
  then have "c = a\<lparr>conts := conts c, envs := envs c, heapNext := heapNext c\<rparr>" by simp
  then show ?thesis by (simp add: mem_only_def)
qed

lemma envs_only_mem_only: "envs_only vm vm' \<Longrightarrow> mem_only vm vm'"
proof -
  assume a: "envs_only vm vm'"
  then have eq: "vm' = vm\<lparr>envs := envs vm', heapNext := heapNext vm'\<rparr>" by (simp add: envs_only_def)
  have "conts vm' = conts vm" using envs_onlyD(1)[OF a] .
  then have "vm\<lparr>envs := envs vm', heapNext := heapNext vm'\<rparr>
           = vm\<lparr>conts := conts vm', envs := envs vm', heapNext := heapNext vm'\<rparr>" by simp
  then show ?thesis using eq by (simp add: mem_only_def)
qed

lemma mem_only_upd_conts: "mem_only vm vm' \<Longrightarrow> mem_only vm (vm'\<lparr>conts := C\<rparr>)"
proof -
  assume "mem_only vm vm'"
  then have eq: "vm' = vm\<lparr>conts := conts vm', envs := envs vm', heapNext := heapNext vm'\<rparr>"
    by (simp add: mem_only_def)
  have "vm'\<lparr>conts := C\<rparr> = vm\<lparr>conts := conts vm', envs := envs vm', heapNext := heapNext vm'\<rparr>\<lparr>conts := C\<rparr>"
    using eq by simp
  then show ?thesis by (simp add: mem_only_def)
qed

lemma mem_only_upd_heapNext: "mem_only vm vm' \<Longrightarrow> mem_only vm (vm'\<lparr>heapNext := h\<rparr>)"
proof -
  assume "mem_only vm vm'"
  then have eq: "vm' = vm\<lparr>conts := conts vm', envs := envs vm', heapNext := heapNext vm'\<rparr>"
    by (simp add: mem_only_def)
  have "vm'\<lparr>heapNext := h\<rparr> = vm\<lparr>conts := conts vm', envs := envs vm', heapNext := heapNext vm'\<rparr>\<lparr>heapNext := h\<rparr>"
    using eq by simp
  then show ?thesis by (simp add: mem_only_def)
qed

lemma save_cont_env_mem_only: "mem_only vm (save_cont_env k vm c)"
proof -
  have e: "mem_only vm (snd (save_env k vm x))" for x
    using envs_only_mem_only[OF save_env_only] .
  show ?thesis
    unfolding save_cont_env_def Let_def
    using e[of "c_env (conts vm c)"]
    by (auto split: prod.splits intro!: mem_only_upd_conts mem_only_refl)
qed

lemma save_cont_move_mem_only:
  assumes "save_cont_move k vm c prev = (vm', csave, tmp)" shows "mem_only vm vm'"
proof -
  let ?vm1 = "save_cont_env k (vm\<lparr>heapNext := heapNext vm + 1\<rparr>) c"
  have "mem_only vm (vm\<lparr>heapNext := heapNext vm + 1\<rparr>)"
    by (rule mem_only_upd_heapNext[OF mem_only_refl])
  then have 1: "mem_only vm ?vm1" using save_cont_env_mem_only mem_only_trans by blast
  show ?thesis using assms 1
    by (auto simp: save_cont_move_def Let_def intro!: mem_only_upd_conts)
qed

lemma save_cont_pass1_mem_only: "mem_only vm (save_cont_pass1 k vm c prev)"
proof (induction k vm c prev rule: save_cont_pass1.induct)
  case (1 k vm c prev)
  obtain vm' csave tmp where mv: "save_cont_move k vm c prev = (vm', csave, tmp)"
    by (cases "save_cont_move k vm c prev") auto
  note st = save_cont_move_mem_only[OF mv]
  show ?case
  proof (cases "IN_STACK_P k tmp")
    case True
    have "mem_only vm' (save_cont_pass1 k vm' tmp csave)"
      using 1[OF mv[symmetric] refl True] .
    then have "mem_only vm (save_cont_pass1 k vm' tmp csave)" using st mem_only_trans by blast
    then show ?thesis using mv True by (subst save_cont_pass1.simps) simp
  next
    case False
    then show ?thesis using mv st by (subst save_cont_pass1.simps) simp
  qed
qed


definition kept :: "ScmVM \<Rightarrow> ScmVM \<Rightarrow> bool" where
  "kept vm vm' =
     (pc vm' = pc vm \<and> sp vm' = sp vm \<and> argp vm' = argp vm \<and> base vm' = base vm
      \<and> val0 vm' = val0 vm \<and> vals vm' = vals vm \<and> numVals vm' = numVals vm
      \<and> handlers vm' = handlers vm \<and> exceptionHandler vm' = exceptionHandler vm
      \<and> escapePoint vm' = escapePoint vm \<and> floatingEP vm' = floatingEP vm
      \<and> cstack vm' = cstack vm \<and> escapeReason vm' = escapeReason vm
      \<and> escapeData vm' = escapeData vm \<and> errorBeingHandled vm' = errorBeingHandled vm
      \<and> stackEnd vm' = stackEnd vm \<and> stack vm' = stack vm)"

lemma kept_refl: "kept vm vm"
  by (simp add: kept_def)

lemma kept_trans: "kept a b \<Longrightarrow> kept b c \<Longrightarrow> kept a c"
  by (simp add: kept_def)

lemma mem_only_kept: "mem_only vm vm' \<Longrightarrow> kept vm vm'"
proof -
  assume "mem_only vm vm'"
  then have eq: "vm' = vm\<lparr>conts := conts vm', envs := envs vm', heapNext := heapNext vm'\<rparr>"
    by (simp add: mem_only_def)
  show ?thesis by (subst eq, subst (2) eq) (simp add: kept_def)
qed

lemma save_cont_cstk_loop_kept:
  "kept vm (save_cont_cstk_loop vm L) \<and> conts (save_cont_cstk_loop vm L) = conts vm
   \<and> eps (save_cont_cstk_loop vm L) = eps vm \<and> cont (save_cont_cstk_loop vm L) = cont vm"
  by (induction L arbitrary: vm) (auto simp: kept_def)

lemma save_cont_ep_loop_kept:
  "kept vm (save_cont_ep_loop vm L) \<and> conts (save_cont_ep_loop vm L) = conts vm
   \<and> cs_cont (save_cont_ep_loop vm L) = cs_cont vm \<and> cont (save_cont_ep_loop vm L) = cont vm"
  by (induction L arbitrary: vm) (auto simp: kept_def)

lemma save_cont_ep_loop_fields:
  "ep_handlers (eps (save_cont_ep_loop vm L) a) = ep_handlers (eps vm a)
   \<and> ep_cstack (eps (save_cont_ep_loop vm L) a) = ep_cstack (eps vm a)
   \<and> ep_xhandler (eps (save_cont_ep_loop vm L) a) = ep_xhandler (eps vm a)
   \<and> ep_ehandler (eps (save_cont_ep_loop vm L) a) = ep_ehandler (eps vm a)"
  by (induction L arbitrary: vm) auto

lemma mem_only_eps: "mem_only vm vm' \<Longrightarrow> eps vm' = eps vm \<and> cs_cont vm' = cs_cont vm \<and> cont vm' = cont vm \<and> env vm' = env vm"
proof -
  assume "mem_only vm vm'"
  then have eq: "vm' = vm\<lparr>conts := conts vm', envs := envs vm', heapNext := heapNext vm'\<rparr>"
    by (simp add: mem_only_def)
  show ?thesis by (subst eq, subst (2) eq, subst (3) eq, subst (4) eq) simp
qed

lemma save_cont_kept: "kept vm (save_cont k vm)"
proof -
  obtain e vm0 where se: "save_env k vm (env vm) = (e, vm0)" by (cases "save_env k vm (env vm)") auto
  have m0: "mem_only vm vm0" using envs_only_mem_only[OF save_env_only[of vm k "env vm"]] se by simp
  let ?v0 = "vm0\<lparr>env := e\<rparr>"
  have k0: "kept vm ?v0" using mem_only_kept[OF m0] by (simp add: kept_def)
  show ?thesis
  proof (cases "IN_STACK_P k (cont vm)")
    case False
    then have "save_cont k vm = ?v0" using se by (simp add: save_cont_def Let_def)
    then show ?thesis using k0 by simp
  next
    case True
    let ?v1 = "save_cont_pass1 k ?v0 (cont vm) NULL"
    have k1: "kept vm ?v1" using mem_only_kept[OF save_cont_pass1_mem_only] k0 kept_trans by blast
    let ?v2 = "if FORWARDED_CONT_P ?v1 (cont ?v1) then ?v1\<lparr>cont := c_prev (conts ?v1 (cont ?v1))\<rparr> else ?v1"
    have k2: "kept vm ?v2" using k1 by (simp add: kept_def)
    let ?v3 = "save_cont_cstk_loop ?v2 (cstack ?v2)"
    have k3: "kept vm ?v3" using k2 save_cont_cstk_loop_kept kept_trans by blast
    let ?v4 = "save_cont_ep_loop ?v3 (escapePoint ?v3)"
    have k4: "kept vm ?v4" using k3 save_cont_ep_loop_kept kept_trans by blast
    let ?v5 = "save_cont_ep_loop ?v4 (floatingEP ?v4)"
    have k5: "kept vm ?v5" using k4 save_cont_ep_loop_kept kept_trans by blast
    have sc: "save_cont k vm = ?v5"
      using True se by (simp add: save_cont_def Let_def)
    show ?thesis using k5 sc by simp
  qed
qed

lemma save_cont_ep_fields:
  "ep_handlers (eps (save_cont k vm) a) = ep_handlers (eps vm a)
   \<and> ep_cstack (eps (save_cont k vm) a) = ep_cstack (eps vm a)
   \<and> ep_xhandler (eps (save_cont k vm) a) = ep_xhandler (eps vm a)
   \<and> ep_ehandler (eps (save_cont k vm) a) = ep_ehandler (eps vm a)"
proof -
  obtain e vm0 where se: "save_env k vm (env vm) = (e, vm0)" by (cases "save_env k vm (env vm)") auto
  have m0: "mem_only vm vm0" using envs_only_mem_only[OF save_env_only[of vm k "env vm"]] se by simp
  let ?v0 = "vm0\<lparr>env := e\<rparr>"
  have e0: "eps ?v0 = eps vm" using mem_only_eps[OF m0] by simp
  show ?thesis
  proof (cases "IN_STACK_P k (cont vm)")
    case False
    then have "save_cont k vm = ?v0" using se by (simp add: save_cont_def Let_def)
    then show ?thesis using e0 by simp
  next
    case True
    let ?v1 = "save_cont_pass1 k ?v0 (cont vm) NULL"
    have e1: "eps ?v1 = eps vm" using mem_only_eps[OF save_cont_pass1_mem_only, of k ?v0 "cont vm" NULL] e0 by simp
    let ?v2 = "if FORWARDED_CONT_P ?v1 (cont ?v1) then ?v1\<lparr>cont := c_prev (conts ?v1 (cont ?v1))\<rparr> else ?v1"
    have e2: "eps ?v2 = eps vm" using e1 by simp
    let ?v3 = "save_cont_cstk_loop ?v2 (cstack ?v2)"
    have e3: "eps ?v3 = eps vm" using e2 save_cont_cstk_loop_kept[of ?v2 "cstack ?v2"] by simp
    let ?v4 = "save_cont_ep_loop ?v3 (escapePoint ?v3)"
    let ?v5 = "save_cont_ep_loop ?v4 (floatingEP ?v4)"
    have sc: "save_cont k vm = ?v5"
      using True se by (simp add: save_cont_def Let_def)
    show ?thesis
      unfolding sc
      using save_cont_ep_loop_fields[of ?v4 "floatingEP ?v4" a]
            save_cont_ep_loop_fields[of ?v3 "escapePoint ?v3" a] e3
      by simp
  qed
qed


text \<open>
  The closed form of the clearing loop on a frame store: the addresses from \<open>lo\<close> up to
  \<open>hi\<close> hold \<open>z\<close>.
\<close>

definition cleared :: "nat \<Rightarrow> nat \<Rightarrow> 'a \<Rightarrow> (ptr \<Rightarrow> 'a) \<Rightarrow> ptr \<Rightarrow> 'a" where
  "cleared lo hi z f p = (case p of Stk i \<Rightarrow> if lo \<le> i \<and> i < hi then z else f p | _ \<Rightarrow> f p)"

lemma cleared_step:
  "p < hi \<Longrightarrow> cleared (Suc p) hi z (f(Stk p := z)) = cleared p hi z f"
  by (auto simp: cleared_def fun_eq_iff split: ptr.splits)

lemma cleared_none: "\<not> p < hi \<Longrightarrow> cleared p hi z f = f"
  by (auto simp: cleared_def fun_eq_iff split: ptr.splits)

lemma clear_stack_eq:
  "clear_stack vm p =
     vm\<lparr>stack := (\<lambda>i. if p \<le> i \<and> i < stackEnd vm then NULLW else stack vm i),
        conts := cleared p (stackEnd vm) zero_cont (conts vm),
        envs := cleared p (stackEnd vm) zero_env (envs vm)\<rparr>"
proof (induction vm p rule: clear_stack.induct)
  case (1 vm p)
  show ?case
  proof (cases "p < stackEnd vm")
    case True
    let ?v = "vm\<lparr>stack := (stack vm)(p := NULLW), conts := (conts vm)(Stk p := zero_cont),
                  envs := (envs vm)(Stk p := zero_env)\<rparr>"
    have f: "(\<lambda>i. if Suc p \<le> i \<and> i < stackEnd vm then NULLW else ((stack vm)(p := NULLW)) i)
           = (\<lambda>i. if p \<le> i \<and> i < stackEnd vm then NULLW else stack vm i)"
      using True by (auto simp: fun_eq_iff)
    have ih: "clear_stack ?v (p + 1)
            = ?v\<lparr>stack := (\<lambda>i. if p + 1 \<le> i \<and> i < stackEnd ?v then NULLW else stack ?v i),
                 conts := cleared (p + 1) (stackEnd ?v) zero_cont (conts ?v),
                 envs := cleared (p + 1) (stackEnd ?v) zero_env (envs ?v)\<rparr>"
      by (rule 1[OF True])
    have sel: "stackEnd ?v = stackEnd vm" "stack ?v = (stack vm)(p := NULLW)"
      "conts ?v = (conts vm)(Stk p := zero_cont)" "envs ?v = (envs vm)(Stk p := zero_env)"
      by simp_all
    have c: "cleared (p + 1) (stackEnd vm) zero_cont ((conts vm)(Stk p := zero_cont))
             = cleared p (stackEnd vm) zero_cont (conts vm)"
      "cleared (p + 1) (stackEnd vm) zero_env ((envs vm)(Stk p := zero_env))
             = cleared p (stackEnd vm) zero_env (envs vm)"
      by (simp_all add: cleared_step[OF True])
    have f': "(\<lambda>i. if p + 1 \<le> i \<and> i < stackEnd vm then NULLW else ((stack vm)(p := NULLW)) i)
           = (\<lambda>i. if p \<le> i \<and> i < stackEnd vm then NULLW else stack vm i)"
      using f by simp
    have "clear_stack vm p = clear_stack ?v (p + 1)"
      by (subst clear_stack.simps) (use True in simp)
    then show ?thesis unfolding ih sel c f' by simp
  next
    case False
    have f: "(\<lambda>i. if p \<le> i \<and> i < stackEnd vm then NULLW else stack vm i) = stack vm"
      using False by (auto simp: fun_eq_iff)
    have c: "cleared p (stackEnd vm) zero_cont (conts vm) = conts vm"
      "cleared p (stackEnd vm) zero_env (envs vm) = envs vm"
      by (rule cleared_none[OF False])+
    show ?thesis unfolding f c
      by (subst clear_stack.simps) (use False in simp)
  qed
qed

lemma save_stack_eq:
  "save_stack k vm =
     (save_cont k vm)\<lparr>stack := (\<lambda>i. if sp vm - argp vm \<le> i \<and> i < stackEnd vm then NULLW
                                      else if i < sp vm - argp vm then stack vm (argp vm + i)
                                      else stack vm i),
                      sp := sp vm - argp vm, argp := 0,
                      conts := cleared (sp vm - argp vm) (stackEnd vm) zero_cont
                                 (moved 0 (argp vm) (sp vm - argp vm) (conts (save_cont k vm))),
                      envs := cleared (sp vm - argp vm) (stackEnd vm) zero_env
                                 (moved 0 (argp vm) (sp vm - argp vm) (envs (save_cont k vm)))\<rparr>"
proof -
  have kp: "kept vm (save_cont k vm)" by (rule save_cont_kept)
  then have f: "sp (save_cont k vm) = sp vm" "argp (save_cont k vm) = argp vm"
    "stackEnd (save_cont k vm) = stackEnd vm" "stack (save_cont k vm) = stack vm"
    by (simp_all add: kept_def)
  show ?thesis
    unfolding save_stack_def Let_def clear_stack_eq memmove_stack_def
    by (simp add: f fun_eq_iff)
qed

text \<open>
  C7. After \<open>save_stack\<close> the words that lay between \<open>argp\<close> and \<open>sp\<close> are at the
  stack base, unchanged and in the same order; \<open>argp\<close> is the stack base and \<open>sp\<close> is the
  base plus the length of the block; every cell from \<open>sp\<close> up to the stack end is the
  null word; and \<open>val0\<close>, \<open>vals\<close>, \<open>numVals\<close>, \<open>pc\<close> and \<open>base\<close> are as before. The
  argument block is well formed: \<open>argp \<le> sp \<le> stackEnd\<close>.
\<close>

theorem save_stack_compacts:
  assumes "argp vm \<le> sp vm" and "sp vm \<le> stackEnd vm"
  shows "(\<forall>i < sp vm - argp vm. stack (save_stack k vm) i = stack vm (argp vm + i))
       \<and> argp (save_stack k vm) = 0
       \<and> sp (save_stack k vm) = sp vm - argp vm
       \<and> (\<forall>i. sp (save_stack k vm) \<le> i \<and> i < stackEnd vm \<longrightarrow> stack (save_stack k vm) i = NULLW)
       \<and> stackEnd (save_stack k vm) = stackEnd vm
       \<and> val0 (save_stack k vm) = val0 vm
       \<and> vals (save_stack k vm) = vals vm
       \<and> numVals (save_stack k vm) = numVals vm
       \<and> pc (save_stack k vm) = pc vm
       \<and> base (save_stack k vm) = base vm"
proof -
  have kp: "kept vm (save_cont k vm)" by (rule save_cont_kept)
  show ?thesis
    by (subst save_stack_eq)+ (use kp in \<open>simp add: kept_def\<close>)
qed

text \<open>A small configuration and a VM with two words below and two words in the argument block.\<close>

definition k0 :: vmconst where
  "k0 = \<lparr>SCM_VM_MAX_VALUES = 4, SCM_VM_STACK_SIZE = 16, CONT_FRAME_SIZE = 6\<rparr>"

definition vm_args :: ScmVM where
  "vm_args = (Scm_NewVM k0)\<lparr>argp := 2, sp := 4,
      stack := (\<lambda>_. NULLW)(0 := ObjW (Obj 5), 1 := ObjW (Obj 6), 2 := ObjW (Obj 7), 3 := ObjW (Obj 8))\<rparr>"

theorem save_stack_compacts_witness:
  "argp vm_args \<le> sp vm_args \<and> sp vm_args \<le> stackEnd vm_args
   \<and> stack (save_stack k0 vm_args) 0 = ObjW (Obj 7)
   \<and> stack (save_stack k0 vm_args) 1 = ObjW (Obj 8)
   \<and> stack (save_stack k0 vm_args) 2 = NULLW
   \<and> stack (save_stack k0 vm_args) 15 = NULLW
   \<and> sp (save_stack k0 vm_args) = 2 \<and> argp (save_stack k0 vm_args) = 0
   \<and> val0 (save_stack k0 vm_args) = SCM_UNDEFINED \<and> numVals (save_stack k0 vm_args) = 1"
proof -
  have h: "argp vm_args \<le> sp vm_args" "sp vm_args \<le> stackEnd vm_args"
    by (simp_all add: vm_args_def Scm_NewVM_def k0_def)
  have v: "sp vm_args = 4" "argp vm_args = 2" "stackEnd vm_args = 16"
    "stack vm_args 2 = ObjW (Obj 7)" "stack vm_args 3 = ObjW (Obj 8)"
    "val0 vm_args = SCM_UNDEFINED" "numVals vm_args = 1"
    by (simp_all add: vm_args_def Scm_NewVM_def k0_def)
  note t = save_stack_compacts[OF h, of k0]
  have "0 < sp vm_args - argp vm_args" "1 < sp vm_args - argp vm_args" using v by simp_all
  then have "stack (save_stack k0 vm_args) 0 = stack vm_args (argp vm_args + 0)"
    "stack (save_stack k0 vm_args) 1 = stack vm_args (argp vm_args + 1)"
    using t by blast+
  then have a: "stack (save_stack k0 vm_args) 0 = ObjW (Obj 7)"
    and b: "stack (save_stack k0 vm_args) 1 = ObjW (Obj 8)"
    using v by (simp_all add: numeral_2_eq_2 numeral_3_eq_3)
  have z: "\<forall>i. sp (save_stack k0 vm_args) \<le> i \<and> i < stackEnd vm_args \<longrightarrow> stack (save_stack k0 vm_args) i = NULLW"
    and r: "sp (save_stack k0 vm_args) = sp vm_args - argp vm_args" "argp (save_stack k0 vm_args) = 0"
      "val0 (save_stack k0 vm_args) = val0 vm_args" "numVals (save_stack k0 vm_args) = numVals vm_args"
    using t by blast+
  have c: "stack (save_stack k0 vm_args) 2 = NULLW" "stack (save_stack k0 vm_args) 15 = NULLW"
    using z r v by simp_all
  show ?thesis using h a b c r v by simp
qed

section \<open>Recursive port locks\<close>

text \<open>
  C9. When the instance \<open>vm\<close> already owns the lock of port \<open>p\<close> (so the count is at least
  1, and below \<open>INT_MAX\<close> for the increment to be defined), \<open>PORT_LOCK\<close> returns at once
  with the count incremented and nothing else changed: the internal fast lock is not
  taken. \<open>PORT_UNLOCK\<close> decrements the count, never takes the fast lock, and clears the
  owner slot exactly when the decremented count is zero; unlocking after a recursive lock
  gives the port back as it was.
\<close>

theorem port_recursive_lock:
  assumes "lockOwner p = Some vm" and "1 \<le> lockCount p" and "lockCount p < 2147483647"
  shows "PORT_LOCK terminated p vm = Some (p\<lparr>lockCount := lockCount p + 1\<rparr>)
       \<and> fastlock_locked (p\<lparr>lockCount := lockCount p + 1\<rparr>) = fastlock_locked p
       \<and> lockCount (PORT_UNLOCK p) = lockCount p - 1
       \<and> fastlock_locked (PORT_UNLOCK p) = fastlock_locked p
       \<and> (lockOwner (PORT_UNLOCK p) = None) = (lockCount (PORT_UNLOCK p) = 0)
       \<and> (lockOwner (PORT_UNLOCK p) = Some vm) = (lockCount (PORT_UNLOCK p) \<noteq> 0)
       \<and> PORT_UNLOCK (p\<lparr>lockCount := lockCount p + 1\<rparr>) = p"
  using assms by (auto simp: PORT_LOCK_def PORT_UNLOCK_def Let_def)

definition port_held :: ScmPort where
  "port_held = \<lparr>lockOwner = Some 7, lockCount = 1, fastlock_locked = 1\<rparr>"

theorem port_recursive_lock_witness:
  "lockOwner port_held = Some 7 \<and> 1 \<le> lockCount port_held \<and> lockCount port_held < 2147483647
   \<and> PORT_LOCK (\<lambda>_. False) port_held 7 = Some \<lparr>lockOwner = Some 7, lockCount = 2, fastlock_locked = 1\<rparr>
   \<and> PORT_UNLOCK port_held = \<lparr>lockOwner = None, lockCount = 0, fastlock_locked = 1\<rparr>
   \<and> PORT_UNLOCK \<lparr>lockOwner = Some 7, lockCount = 2, fastlock_locked = 1\<rparr> = port_held"
proof -
  have h: "lockOwner port_held = Some 7" "1 \<le> lockCount port_held" "lockCount port_held < 2147483647"
    by (simp_all add: port_held_def)
  have e: "port_held\<lparr>lockCount := lockCount port_held + 1\<rparr> = \<lparr>lockOwner = Some 7, lockCount = 2, fastlock_locked = 1\<rparr>"
    by (simp add: port_held_def)
  note t = port_recursive_lock[OF h, of "\<lambda>_. False"]
  have a: "PORT_LOCK (\<lambda>_. False) port_held 7 = Some (port_held\<lparr>lockCount := lockCount port_held + 1\<rparr>)"
    and c: "PORT_UNLOCK (port_held\<lparr>lockCount := lockCount port_held + 1\<rparr>) = port_held"
    using t by blast+
  have u: "PORT_UNLOCK port_held = \<lparr>lockOwner = None, lockCount = 0, fastlock_locked = 1\<rparr>"
    by (simp add: PORT_UNLOCK_def port_held_def)
  show ?thesis using h a[unfolded e] c[unfolded e] u by blast
qed

section \<open>The dynamic-handler adjustment\<close>

text \<open>
  The adjustment in closed form. \<open>with_rest xs\<close> pairs each element with the rest of the
  list after it. \<open>handler_adjustment\<close> is what the code computes; \<open>claimed_adjustment\<close> follows
  the wording that pairs a before-thunk with the handler list extended to include its cell.
\<close>

fun with_rest :: "'a list \<Rightarrow> ('a \<times> 'a list) list" where
  "with_rest [] = []"
| "with_rest (x # xs) = (x, xs) # with_rest xs"

definition handler_adjustment :: "hcell list \<Rightarrow> hcell list \<Rightarrow> (ScmObj \<times> hcell list) list" where
  "handler_adjustment C T =
     map (\<lambda>(c, rest). (cell_after c, rest)) (takeWhile (\<lambda>(c, rest). c \<notin> set T) (with_rest C))
     @ map (\<lambda>c. (cell_before c, tl (dropWhile (\<lambda>x. x \<noteq> c) T))) (filter (\<lambda>c. c \<notin> set C) (rev T))"

definition claimed_adjustment :: "hcell list \<Rightarrow> hcell list \<Rightarrow> (ScmObj \<times> hcell list) list" where
  "claimed_adjustment C T =
     map (\<lambda>(c, rest). (cell_after c, rest)) (takeWhile (\<lambda>(c, rest). c \<notin> set T) (with_rest C))
     @ map (\<lambda>c. (cell_before c, dropWhile (\<lambda>x. x \<noteq> c) T)) (filter (\<lambda>c. c \<notin> set C) (rev T))"

lemma Scm_Memq_eq: "Scm_Memq x ys = (if x \<in> set ys then Some (dropWhile (\<lambda>y. y \<noteq> x) ys) else None)"
  by (induction ys) auto

lemma calculate_after_loop_eq:
  "calculate_after_loop target h C =
     h @ map (\<lambda>(c, rest). (cell_after c, rest)) (takeWhile (\<lambda>(c, rest). c \<notin> set target) (with_rest C))"
  by (induction C arbitrary: h) (auto simp: Scm_Memq_eq)

lemma calculate_before_loop_eq:
  "set p \<subseteq> set T \<Longrightarrow>
   calculate_before_loop C T h p =
     Inr (h @ map (\<lambda>c. (cell_before c, tl (dropWhile (\<lambda>x. x \<noteq> c) T))) (filter (\<lambda>c. c \<notin> set C) p))"
  by (induction p arbitrary: h) (auto simp: Scm_Memq_eq)

lemma calculate_handlers_eq:
  "throw_cont_calculate_handlers ep vm = Inr (handler_adjustment (handlers vm) (ep_handlers (eps vm ep)))"
  by (simp add: throw_cont_calculate_handlers_def Let_def calculate_after_loop_eq
        calculate_before_loop_eq handler_adjustment_def)

lemma handler_adjustment_same: "handler_adjustment H H = []"
proof -
  have "takeWhile (\<lambda>(c, rest). c \<notin> set H) (with_rest H) = []"
    by (cases H) auto
  then show ?thesis by (simp add: handler_adjustment_def)
qed

section \<open>What the stack operations keep\<close>

text \<open>
  The control state that stack overflow handling and frame pushing leave alone.
\<close>

definition ctl_kept :: "ScmVM \<Rightarrow> ScmVM \<Rightarrow> bool" where
  "ctl_kept vm vm' =
     (val0 vm' = val0 vm \<and> vals vm' = vals vm \<and> numVals vm' = numVals vm
      \<and> handlers vm' = handlers vm \<and> exceptionHandler vm' = exceptionHandler vm
      \<and> escapePoint vm' = escapePoint vm \<and> floatingEP vm' = floatingEP vm
      \<and> cstack vm' = cstack vm \<and> escapeReason vm' = escapeReason vm
      \<and> escapeData vm' = escapeData vm \<and> stackEnd vm' = stackEnd vm
      \<and> (\<forall>a. ep_handlers (eps vm' a) = ep_handlers (eps vm a)
             \<and> ep_cstack (eps vm' a) = ep_cstack (eps vm a)
             \<and> ep_xhandler (eps vm' a) = ep_xhandler (eps vm a)))"

lemma ctl_kept_refl: "ctl_kept vm vm"
  by (simp add: ctl_kept_def)

lemma ctl_kept_trans: "ctl_kept a b \<Longrightarrow> ctl_kept b c \<Longrightarrow> ctl_kept a c"
  by (simp add: ctl_kept_def)

lemma save_cont_ctl_kept: "ctl_kept vm (save_cont k vm)"
  using save_cont_kept[where vm=vm and k=k] save_cont_ep_fields[where vm=vm and k=k]
  by (simp add: ctl_kept_def kept_def)

lemma save_stack_ctl_kept: "ctl_kept vm (save_stack k vm)"
  by (subst save_stack_eq) (use save_cont_ctl_kept[where vm=vm and k=k] in \<open>simp add: ctl_kept_def\<close>)

lemma CHECK_STACK_ctl_kept: "ctl_kept vm (CHECK_STACK k vm n)"
  by (simp add: CHECK_STACK_def save_stack_ctl_kept ctl_kept_refl)

lemma Scm_VMPushCC_ctl_kept: "ctl_kept vm (Scm_VMPushCC k vm after data)"
  using CHECK_STACK_ctl_kept[where vm=vm and k=k and n="CONT_FRAME_SIZE k + length data"]
  by (simp add: Scm_VMPushCC_def Let_def ctl_kept_def)

lemma Scm_VMPushCC_top:
  "cont (Scm_VMPushCC k vm after data) = Stk (sp (CHECK_STACK k vm (CONT_FRAME_SIZE k + length data)))"
  "c_argp (conts (Scm_VMPushCC k vm after data) (cont (Scm_VMPushCC k vm after data))) = NULL"
  "c_pc (conts (Scm_VMPushCC k vm after data) (cont (Scm_VMPushCC k vm after data))) = CProc after"
  "c_data (conts (Scm_VMPushCC k vm after data) (cont (Scm_VMPushCC k vm after data))) = data"
  "c_size (conts (Scm_VMPushCC k vm after data) (cont (Scm_VMPushCC k vm after data))) = int (length data)"
  by (simp_all add: Scm_VMPushCC_def Let_def)

lemma Scm_VMApply1_ctl_kept: "ctl_kept vm (snd (Scm_VMApply1 k vm proc arg))"
  using CHECK_STACK_ctl_kept[where vm=vm and k=k and n=1]
  by (simp add: Scm_VMApply1_def Let_def PUSH_ARG_def ctl_kept_def)

section \<open>Ghost continuations\<close>

lemma find_cstack_eq: "find_cstack (Some cs) L = (if cs \<in> set L then Some cs else None)"
  by (induction L) auto

lemma throw_cont_body_cstack:
  "(case throw_cont_body k vm hs ep args of
      Inl (e, vm') \<Rightarrow> e \<noteq> Siglongjmp \<and> cstack vm' = cstack vm
    | Inr (v, vm') \<Rightarrow> cstack vm' = cstack vm)"
proof -
  have c: "cstack (throw_cont_vals_loop v i xs) = cstack v" for v i xs
    by (induction xs arbitrary: v i) auto
  have s: "cstack (save_cont k vm) = cstack vm"
    using save_cont_ctl_kept[where vm=vm and k=k] by (simp add: ctl_kept_def)
  have p: "cstack (Scm_VMPushCC k vm Throw_cont_cc d) = cstack vm" for d
    using Scm_VMPushCC_ctl_kept[where vm=vm and k=k] by (simp add: ctl_kept_def)
  show ?thesis
    by (auto simp: throw_cont_body_def Let_def Scm_VMApply0_def c s p split: list.splits)
qed

text \<open>
  The VM once \<open>throw_cont_body\<close> has installed the continuation of the escape point \<open>ep\<close>
  without saving the current one.
\<close>

definition installed :: "ScmVM \<Rightarrow> nat \<Rightarrow> ScmVM" where
  "installed vm ep =
     vm\<lparr>pc := PC_TO_RETURN, cont := ep_cont (eps vm ep), handlers := ep_handlers (eps vm ep)\<rparr>"

text \<open>
  C6. Let the host-stack record \<open>cs\<close> recorded in the escape point \<open>ep\<close> be not NULL and not
  in the current host-stack chain. Then \<open>throw_continuation\<close> takes no long jump: it
  computes the handler adjustment and runs \<open>throw_cont_body\<close> on the current VM, the
  host-stack chain stays as it is, and no exit of it is a long jump. With handlers to call,
  the first is called under its handler list on a \<open>throw_cont_cc\<close> frame that carries the
  rest. With none, the continuation is installed in the current VM, which is not saved:
  \<open>pc\<close> is the return code, \<open>cont\<close> and \<open>handlers\<close> are those of the escape point, every
  other field is as before, and the arguments are delivered. When the return operation
  then meets a boundary frame as the installed continuation, the loop returns to
  \<open>user_eval_inner\<close>; and when the loop returns with a continuation that is neither the one
  saved in the current record nor NULL, as with the installed one here, the error
  "attempt to return from a ghost continuation." is raised.
\<close>

theorem ghost_continuation:
  assumes "ep_cstack (eps vm ep) = Some cs" and "cs \<notin> set (cstack vm)"
  shows "throw_continuation k vm args ep
           = throw_cont_body k vm (handler_adjustment (handlers vm) (ep_handlers (eps vm ep))) ep args
       \<and> (case throw_continuation k vm args ep of
             Inl (e, vm') \<Rightarrow> e \<noteq> Siglongjmp \<and> cstack vm' = cstack vm
           | Inr (v, vm') \<Rightarrow> cstack vm' = cstack vm)
       \<and> (\<forall>h chain rest.
             handler_adjustment (handlers vm) (ep_handlers (eps vm ep)) = (h, chain) # rest \<longrightarrow>
             throw_continuation k vm args ep
               = Inr (h, (Scm_VMPushCC k vm Throw_cont_cc [ThunksW rest, EpW ep, ListW args])
                            \<lparr>handlers := chain, pc := apply_calls 0\<rparr>))
       \<and> (handler_adjustment (handlers vm) (ep_handlers (eps vm ep)) = [] \<longrightarrow>
             throw_continuation k vm args ep
               = (if length args = 1 then Inr (hd args, installed vm ep)
                  else if args = [] then Inr (SCM_UNDEFINED, installed vm ep)
                  else if SCM_VM_MAX_VALUES k \<le> length args
                  then Inl (Scm_Error ''too many values passed to the continuation'' [], installed vm ep)
                  else Inr (hd args, (throw_cont_vals_loop (installed vm ep) 0 (tl args))
                                       \<lparr>numVals := int (length args)\<rparr>)))
       \<and> (BOUNDARY_FRAME_P vm (ep_cont (eps vm ep)) \<longrightarrow> RETURN_OP k (installed vm ep) = None)
       \<and> (\<forall>cstk prev_pc. ep_cont (eps vm ep) \<noteq> cs_cont vm cstk \<and> ep_cont (eps vm ep) \<noteq> NULL \<longrightarrow>
             user_eval_inner_return k (installed vm ep) cstk prev_pc
               = Inl (Scm_Error ''attempt to return from a ghost continuation.'' [], installed vm ep))
       \<and> (\<forall>vm2 cstk prev_pc. cont vm2 \<noteq> cs_cont vm2 cstk \<and> cont vm2 \<noteq> NULL \<longrightarrow>
             user_eval_inner_return k vm2 cstk prev_pc
               = Inl (Scm_Error ''attempt to return from a ghost continuation.'' [], vm2))"
proof -
  let ?hs = "handler_adjustment (handlers vm) (ep_handlers (eps vm ep))"
  have 1: "throw_continuation k vm args ep = throw_cont_body k vm ?hs ep args"
    using assms by (simp add: throw_continuation_def find_cstack_eq calculate_handlers_eq)
  have 2: "(case throw_continuation k vm args ep of
             Inl (e, vm') \<Rightarrow> e \<noteq> Siglongjmp \<and> cstack vm' = cstack vm
           | Inr (v, vm') \<Rightarrow> cstack vm' = cstack vm)"
    unfolding 1 by (rule throw_cont_body_cstack)
  have 3: "throw_continuation k vm args ep
               = Inr (h, (Scm_VMPushCC k vm Throw_cont_cc [ThunksW rest, EpW ep, ListW args])
                            \<lparr>handlers := chain, pc := apply_calls 0\<rparr>)"
    if "?hs = (h, chain) # rest" for h chain rest
    unfolding 1 that by (simp add: throw_cont_body_def Let_def Scm_VMApply0_def)
  have 4: "throw_continuation k vm args ep
               = (if length args = 1 then Inr (hd args, installed vm ep)
                  else if args = [] then Inr (SCM_UNDEFINED, installed vm ep)
                  else if SCM_VM_MAX_VALUES k \<le> length args
                  then Inl (Scm_Error ''too many values passed to the continuation'' [], installed vm ep)
                  else Inr (hd args, (throw_cont_vals_loop (installed vm ep) 0 (tl args))
                                       \<lparr>numVals := int (length args)\<rparr>))"
    if "?hs = []"
    unfolding 1 that using assms(1) by (simp add: throw_cont_body_def Let_def installed_def)
  have 5: "RETURN_OP k (installed vm ep) = None" if "BOUNDARY_FRAME_P vm (ep_cont (eps vm ep))"
    using that by (simp add: RETURN_OP_def BOUNDARY_FRAME_P_def installed_def)
  have 7: "user_eval_inner_return k vm2 cstk prev_pc
               = Inl (Scm_Error ''attempt to return from a ghost continuation.'' [], vm2)"
    if "cont vm2 \<noteq> cs_cont vm2 cstk \<and> cont vm2 \<noteq> NULL" for vm2 cstk prev_pc
    using that by (simp add: user_eval_inner_return_def)
  have 6: "user_eval_inner_return k (installed vm ep) cstk prev_pc
               = Inl (Scm_Error ''attempt to return from a ghost continuation.'' [], installed vm ep)"
    if "ep_cont (eps vm ep) \<noteq> cs_cont vm cstk \<and> ep_cont (eps vm ep) \<noteq> NULL" for cstk prev_pc
    by (rule 7) (use that in \<open>simp add: installed_def\<close>)
  show ?thesis using 1 2 3 4 5 6 7 by blast
qed

text \<open>
  A VM running under the host-stack record 2, whose saved continuation is the frame at
  stack offset 0, and an escape point captured under the record 1, which is gone; its
  continuation is a boundary frame in the heap.
\<close>

definition vm_ghost :: ScmVM where
  "vm_ghost = (Scm_NewVM k0)\<lparr>cstack := [2], pc := CodeAt 3,
      cont := Heap 7 0,
      conts := (\<lambda>_. zero_cont)(Heap 0 0 := zero_cont\<lparr>c_pc := boundaryFrameMark\<rparr>),
      cs_cont := (\<lambda>_. NULL)(2 := Stk 0),
      eps := (\<lambda>_. zero_ep)(0 := zero_ep\<lparr>ep_cstack := Some 1, ep_cont := Heap 0 0\<rparr>)\<rparr>"

theorem ghost_continuation_witness:
  "ep_cstack (eps vm_ghost 0) = Some 1 \<and> 1 \<notin> set (cstack vm_ghost)
   \<and> throw_continuation k0 vm_ghost [Obj 5] 0
       = Inr (Obj 5, vm_ghost\<lparr>pc := PC_TO_RETURN, cont := Heap 0 0, handlers := []\<rparr>)
   \<and> cont vm_ghost \<noteq> Heap 0 0 \<and> pc vm_ghost \<noteq> PC_TO_RETURN
   \<and> RETURN_OP k0 (vm_ghost\<lparr>pc := PC_TO_RETURN, cont := Heap 0 0, handlers := []\<rparr>) = None
   \<and> user_eval_inner_return k0 (vm_ghost\<lparr>pc := PC_TO_RETURN, cont := Heap 0 0, handlers := []\<rparr>) 2 (CodeAt 3)
       = Inl (Scm_Error ''attempt to return from a ghost continuation.'' [],
              vm_ghost\<lparr>pc := PC_TO_RETURN, cont := Heap 0 0, handlers := []\<rparr>)"
proof -
  have h: "ep_cstack (eps vm_ghost 0) = Some 1" "1 \<notin> set (cstack vm_ghost)"
    by (simp_all add: vm_ghost_def Scm_NewVM_def)
  note t = ghost_continuation[OF h, where k=k0 and args="[Obj 5]"]
  have i: "installed vm_ghost 0 = vm_ghost\<lparr>pc := PC_TO_RETURN, cont := Heap 0 0, handlers := []\<rparr>"
    by (simp add: installed_def vm_ghost_def Scm_NewVM_def zero_ep_def)
  have e: "handler_adjustment (handlers vm_ghost) (ep_handlers (eps vm_ghost 0)) = []"
    by (simp add: handler_adjustment_def vm_ghost_def Scm_NewVM_def zero_ep_def)
  have t4: "handler_adjustment (handlers vm_ghost) (ep_handlers (eps vm_ghost 0)) = [] \<longrightarrow>
             throw_continuation k0 vm_ghost [Obj 5] 0
               = (if length [Obj 5] = 1 then Inr (hd [Obj 5], installed vm_ghost 0)
                  else if [Obj 5] = [] then Inr (SCM_UNDEFINED, installed vm_ghost 0)
                  else if SCM_VM_MAX_VALUES k0 \<le> length [Obj 5]
                  then Inl (Scm_Error ''too many values passed to the continuation'' [], installed vm_ghost 0)
                  else Inr (hd [Obj 5], (throw_cont_vals_loop (installed vm_ghost 0) 0 (tl [Obj 5]))
                                       \<lparr>numVals := int (length [Obj 5])\<rparr>))"
    using t by blast
  have a: "throw_continuation k0 vm_ghost [Obj 5] 0 = Inr (Obj 5, installed vm_ghost 0)"
    using t4 e by simp
  have b: "BOUNDARY_FRAME_P vm_ghost (ep_cont (eps vm_ghost 0))"
    by (simp add: BOUNDARY_FRAME_P_def vm_ghost_def Scm_NewVM_def)
  have c: "RETURN_OP k0 (installed vm_ghost 0) = None" using t b by blast
  have n: "ep_cont (eps vm_ghost 0) \<noteq> cs_cont vm_ghost 2 \<and> ep_cont (eps vm_ghost 0) \<noteq> NULL"
    by (simp add: vm_ghost_def Scm_NewVM_def)
  have d: "user_eval_inner_return k0 (installed vm_ghost 0) 2 (CodeAt 3)
       = Inl (Scm_Error ''attempt to return from a ghost continuation.'' [], installed vm_ghost 0)"
    using t n by blast
  have f: "cont vm_ghost \<noteq> Heap 0 0" "pc vm_ghost \<noteq> PC_TO_RETURN"
    by (simp_all add: vm_ghost_def Scm_NewVM_def)
  show ?thesis using h a c d f unfolding i by simp
qed

section \<open>Raising a condition\<close>

lemma throw_exception_loop_eq:
  "throw_exception_loop x vm exception L =
     (case find (\<lambda>ep. ep_xhandler (eps vm ep) \<noteq> DEFAULT_EXCEPTION_HANDLER) L of
        None \<Rightarrow> None
      | Some ep \<Rightarrow> Some (Scm_ApplyRec x (ep_xhandler (eps vm ep)) [exception] vm))"
  by (induction L) auto

text \<open>
  C3. Let \<open>vm0\<close> be the VM with the flag \<open>SCM_ERROR_BEING_HANDLED\<close> cleared. (1) When the
  current \<open>exceptionHandler\<close> is not the default it is applied to the condition through
  \<open>Scm_ApplyRec\<close>; if it returns \<open>r\<close> and the condition is serious, the handler is reset to
  the default and the error "user-defined exception handler returned on non-continuable
  exception" (formatted with the condition) is raised; if it returns and the condition is
  not serious, \<open>r\<close> is returned; if it does not return, neither does the function.
  (2) When the current handler is the default and the condition is not serious, the first
  escape point of the chain whose \<open>xhandler\<close> is not the default has that handler applied
  to the condition. (3) Otherwise the default exception handler is invoked on the
  condition.
\<close>

theorem throw_exception_dispatch:
  "(exceptionHandler vm \<noteq> DEFAULT_EXCEPTION_HANDLER \<longrightarrow>
      Scm_VMThrowException x vm exception =
        (case Scm_ApplyRec x (exceptionHandler vm) [exception] (vm\<lparr>errorBeingHandled := False\<rparr>) of
           Inl e \<Rightarrow> Inl e
         | Inr (r, vm1) \<Rightarrow>
             if SCM_SERIOUS_CONDITION_P x exception
             then Inl (Scm_Error (''user-defined exception handler returned on non-continuable exception'' @ '' %S'')
                         [exception],
                       vm1\<lparr>val0 := r, exceptionHandler := DEFAULT_EXCEPTION_HANDLER\<rparr>)
             else Inr (r, vm1\<lparr>val0 := r\<rparr>)))
   \<and> (exceptionHandler vm = DEFAULT_EXCEPTION_HANDLER \<and> \<not> SCM_SERIOUS_CONDITION_P x exception \<longrightarrow>
      Scm_VMThrowException x vm exception =
        (case find (\<lambda>ep. ep_xhandler (eps vm ep) \<noteq> DEFAULT_EXCEPTION_HANDLER) (escapePoint vm) of
           Some ep \<Rightarrow> Scm_ApplyRec x (ep_xhandler (eps vm ep)) [exception] (vm\<lparr>errorBeingHandled := False\<rparr>)
         | None \<Rightarrow> Inl (Scm_VMDefaultExceptionHandler x exception (vm\<lparr>errorBeingHandled := False\<rparr>))))
   \<and> (exceptionHandler vm = DEFAULT_EXCEPTION_HANDLER \<and> SCM_SERIOUS_CONDITION_P x exception \<longrightarrow>
      Scm_VMThrowException x vm exception =
        Inl (Scm_VMDefaultExceptionHandler x exception (vm\<lparr>errorBeingHandled := False\<rparr>)))"
  by (auto simp: Scm_VMThrowException_def Let_def throw_exception_loop_eq
           split: sum.splits prod.splits option.splits)

definition x0 :: externs where
  "x0 = \<lparr>Scm_ApplyRec = (\<lambda>p args vm. Inr (Obj 1, vm\<lparr>numVals := 1\<rparr>)),
         SCM_SERIOUS_CONDITION_P = (\<lambda>e. e = Obj 99),
         Scm_VMDefaultExceptionHandler = (\<lambda>e vm. (Siglongjmp, vm\<lparr>escapeReason := SCM_VM_ESCAPE_ERROR\<rparr>))\<rparr>"

definition vm_user_handler :: ScmVM where
  "vm_user_handler = (Scm_NewVM k0)\<lparr>exceptionHandler := Obj 5\<rparr>"

definition vm_ep_handler :: ScmVM where
  "vm_ep_handler = (Scm_NewVM k0)\<lparr>escapePoint := [3, 4],
      eps := (\<lambda>_. zero_ep)(3 := zero_ep\<lparr>ep_xhandler := DEFAULT_EXCEPTION_HANDLER\<rparr>,
                             4 := zero_ep\<lparr>ep_xhandler := Obj 6\<rparr>)\<rparr>"

theorem throw_exception_dispatch_witness:
  "exceptionHandler vm_user_handler \<noteq> DEFAULT_EXCEPTION_HANDLER
   \<and> Scm_VMThrowException x0 vm_user_handler (Obj 99)
       = Inl (Scm_Error ''user-defined exception handler returned on non-continuable exception %S'' [Obj 99],
              vm_user_handler\<lparr>errorBeingHandled := False, numVals := 1, val0 := Obj 1,
                               exceptionHandler := DEFAULT_EXCEPTION_HANDLER\<rparr>)
   \<and> Scm_VMThrowException x0 vm_user_handler (Obj 7)
       = Inr (Obj 1, vm_user_handler\<lparr>errorBeingHandled := False, numVals := 1, val0 := Obj 1\<rparr>)
   \<and> exceptionHandler vm_ep_handler = DEFAULT_EXCEPTION_HANDLER
   \<and> Scm_VMThrowException x0 vm_ep_handler (Obj 7)
       = Inr (Obj 1, vm_ep_handler\<lparr>errorBeingHandled := False, numVals := 1\<rparr>)
   \<and> Scm_VMThrowException x0 vm_ep_handler (Obj 99)
       = Inl (Siglongjmp, vm_ep_handler\<lparr>errorBeingHandled := False, escapeReason := SCM_VM_ESCAPE_ERROR\<rparr>)
   \<and> Scm_VMThrowException x0 (Scm_NewVM k0) (Obj 7)
       = Inl (Siglongjmp, (Scm_NewVM k0)\<lparr>errorBeingHandled := False, escapeReason := SCM_VM_ESCAPE_ERROR\<rparr>)"
proof -
  have u: "exceptionHandler vm_user_handler \<noteq> DEFAULT_EXCEPTION_HANDLER"
    "exceptionHandler vm_user_handler = Obj 5"
    by (simp_all add: vm_user_handler_def Scm_NewVM_def)
  have e: "exceptionHandler vm_ep_handler = DEFAULT_EXCEPTION_HANDLER"
    "exceptionHandler (Scm_NewVM k0) = DEFAULT_EXCEPTION_HANDLER"
    "find (\<lambda>ep. ep_xhandler (eps vm_ep_handler ep) \<noteq> DEFAULT_EXCEPTION_HANDLER) (escapePoint vm_ep_handler) = Some 4"
    "find (\<lambda>ep. ep_xhandler (eps (Scm_NewVM k0) ep) \<noteq> DEFAULT_EXCEPTION_HANDLER) (escapePoint (Scm_NewVM k0)) = None"
    by (simp_all add: vm_ep_handler_def Scm_NewVM_def zero_ep_def)
  have s: "SCM_SERIOUS_CONDITION_P x0 (Obj 99)" "\<not> SCM_SERIOUS_CONDITION_P x0 (Obj 7)"
    and a: "Scm_ApplyRec x0 p args v = Inr (Obj 1, v\<lparr>numVals := 1\<rparr>)"
    and d: "Scm_VMDefaultExceptionHandler x0 ex v = (Siglongjmp, v\<lparr>escapeReason := SCM_VM_ESCAPE_ERROR\<rparr>)"
    for p args v ex
    by (simp_all add: x0_def)
  have 1: "Scm_VMThrowException x0 vm_user_handler (Obj 99)
       = Inl (Scm_Error ''user-defined exception handler returned on non-continuable exception %S'' [Obj 99],
              vm_user_handler\<lparr>errorBeingHandled := False, numVals := 1, val0 := Obj 1,
                               exceptionHandler := DEFAULT_EXCEPTION_HANDLER\<rparr>)"
    using throw_exception_dispatch[of vm_user_handler x0 "Obj 99"] u s a by simp
  have 2: "Scm_VMThrowException x0 vm_user_handler (Obj 7)
       = Inr (Obj 1, vm_user_handler\<lparr>errorBeingHandled := False, numVals := 1, val0 := Obj 1\<rparr>)"
    using throw_exception_dispatch[of vm_user_handler x0 "Obj 7"] u s a by simp
  have 3: "Scm_VMThrowException x0 vm_ep_handler (Obj 7)
       = Inr (Obj 1, vm_ep_handler\<lparr>errorBeingHandled := False, numVals := 1\<rparr>)"
    using throw_exception_dispatch[of vm_ep_handler x0 "Obj 7"] e s a by simp
  have 4: "Scm_VMThrowException x0 vm_ep_handler (Obj 99)
       = Inl (Siglongjmp, vm_ep_handler\<lparr>errorBeingHandled := False, escapeReason := SCM_VM_ESCAPE_ERROR\<rparr>)"
    using throw_exception_dispatch[of vm_ep_handler x0 "Obj 99"] e s d by simp
  have 5: "Scm_VMThrowException x0 (Scm_NewVM k0) (Obj 7)
       = Inl (Siglongjmp, (Scm_NewVM k0)\<lparr>errorBeingHandled := False, escapeReason := SCM_VM_ESCAPE_ERROR\<rparr>)"
    using throw_exception_dispatch[of "Scm_NewVM k0" x0 "Obj 7"] e s d by simp
  show ?thesis using u e 1 2 3 4 5 by simp
qed

section \<open>Values passed to a continuation\<close>

text \<open>
  The VM at the moment the last after-thunk of a handler adjustment has returned three
  values (20, 21, 22): the frame pushed by \<open>throw_cont_body\<close> for \<open>throw_cont_cc\<close> is on top,
  with no thunk left to run, the escape point at address 0 and the single argument 5.
\<close>

definition vm_after_thunk :: ScmVM where
  "vm_after_thunk = (Scm_NewVM k0)\<lparr>
      val0 := Obj 20, vals := [Obj 21, Obj 22, SCM_UNDEFINED, SCM_UNDEFINED], numVals := 3,
      cstack := [1], cont := Stk 0, sp := 9, argp := 9,
      conts := (\<lambda>_. zero_cont)(Stk 0 := zero_cont\<lparr>c_size := 3, c_pc := CProc Throw_cont_cc,
                   c_data := [ThunksW [], EpW 0, ListW [Obj 5]]\<rparr>),
      eps := (\<lambda>_. zero_ep)(0 := zero_ep\<lparr>ep_cstack := Some 1, ep_cont := Heap 0 0\<rparr>)\<rparr>"

text \<open>
  C8 (the code at the failing input). Popping that frame calls \<open>throw_cont_cc\<close>, which
  installs the target continuation and returns the single argument 5 into \<open>val0\<close>, but
  leaves \<open>numVals\<close> at 3 and \<open>vals\<close> as the thunk left them: the continuation receives the
  three values 5, 21, 22. With no argument the unspecified value is returned and
  \<open>numVals\<close> is again left at 3.
\<close>

theorem throw_cont_single_value_keeps_numVals:
  "POP_CONT k0 vm_after_thunk
     = Inr (vm_after_thunk\<lparr>sp := 0, argp := 0, pc := PC_TO_RETURN, cont := Heap 0 0, val0 := Obj 5\<rparr>)
   \<and> numVals (vm_after_thunk\<lparr>sp := 0, argp := 0, pc := PC_TO_RETURN, cont := Heap 0 0, val0 := Obj 5\<rparr>) = 3
   \<and> Scm_VMGetResult (vm_after_thunk\<lparr>sp := 0, argp := 0, pc := PC_TO_RETURN, cont := Heap 0 0, val0 := Obj 5\<rparr>)
       = [Obj 5, Obj 21, Obj 22]
   \<and> throw_cont_body k0 vm_after_thunk [] 0 [Obj 5]
       = Inr (Obj 5, vm_after_thunk\<lparr>pc := PC_TO_RETURN, cont := Heap 0 0\<rparr>)
   \<and> throw_cont_body k0 vm_after_thunk [] 0 []
       = Inr (SCM_UNDEFINED, vm_after_thunk\<lparr>pc := PC_TO_RETURN, cont := Heap 0 0\<rparr>)
   \<and> numVals (vm_after_thunk\<lparr>pc := PC_TO_RETURN, cont := Heap 0 0\<rparr>) = 3"
proof -
  have b1: "throw_cont_body k0 vm_after_thunk [] 0 [Obj 5]
       = Inr (Obj 5, vm_after_thunk\<lparr>pc := PC_TO_RETURN, cont := Heap 0 0\<rparr>)"
    by (simp add: throw_cont_body_def vm_after_thunk_def Scm_NewVM_def zero_ep_def Let_def)
  have b0: "throw_cont_body k0 vm_after_thunk [] 0 []
       = Inr (SCM_UNDEFINED, vm_after_thunk\<lparr>pc := PC_TO_RETURN, cont := Heap 0 0\<rparr>)"
    by (simp add: throw_cont_body_def vm_after_thunk_def Scm_NewVM_def zero_ep_def Let_def)
  have p: "POP_CONT k0 vm_after_thunk
     = Inr (vm_after_thunk\<lparr>sp := 0, argp := 0, pc := PC_TO_RETURN, cont := Heap 0 0, val0 := Obj 5\<rparr>)"
    by (simp add: POP_CONT_def CALL_CCONT_def throw_cont_cc_def throw_cont_body_def vm_after_thunk_def
          Scm_NewVM_def zero_ep_def zero_cont_def Let_def IN_STACK_P_def k0_def)
  have g: "Scm_VMGetResult (vm_after_thunk\<lparr>sp := 0, argp := 0, pc := PC_TO_RETURN, cont := Heap 0 0, val0 := Obj 5\<rparr>)
       = [Obj 5, Obj 21, Obj 22]"
    by (simp add: Scm_VMGetResult_def vm_after_thunk_def Scm_NewVM_def upt_rec numeral_3_eq_3)
  show ?thesis using b1 b0 p g by (simp add: vm_after_thunk_def)
qed

section \<open>Dynamic wind\<close>

text \<open>
  The instruction handlers of the loop are in vminsn.c, which is not among the sources.
  What the loop does with a C function that returns \<open>Scm_VMApply0(proc)\<close> is: store the
  result in \<open>val0\<close>, call it without argument from \<open>apply_calls[0]\<close>, and when the body of
  the procedure returns, pop the continuation (\<open>RETURN_OP\<close>, \<open>POP_CONT\<close>). The run of the
  procedure up to its return is the parameter \<open>exec\<close>.
\<close>

definition call_thunk ::
  "(ScmObj \<Rightarrow> ScmVM \<Rightarrow> ScmVM) \<Rightarrow> vmconst \<Rightarrow> ScmObj \<Rightarrow> ScmVM \<Rightarrow> (error \<times> ScmVM) + ScmVM" where
  "call_thunk exec k proc vm = POP_CONT k (exec proc (vm\<lparr>val0 := proc\<rparr>))"

text \<open>
  A procedure returns normally when it comes back to the continuation frame it was called
  with (the same frame, or the heap copy a stack save has made of it) under the handler
  list it was called with, and leaves a well-formed multiple-value result.
\<close>

definition same_top_frame :: "ScmVM \<Rightarrow> ScmVM \<Rightarrow> bool" where
  "same_top_frame vm vm' =
     (c_argp (conts vm' (cont vm')) = c_argp (conts vm (cont vm))
      \<and> c_size (conts vm' (cont vm')) = c_size (conts vm (cont vm))
      \<and> c_pc (conts vm' (cont vm')) = c_pc (conts vm (cont vm))
      \<and> c_data (conts vm' (cont vm')) = c_data (conts vm (cont vm)))"

definition returns_normally :: "vmconst \<Rightarrow> (ScmObj \<Rightarrow> ScmVM \<Rightarrow> ScmVM) \<Rightarrow> bool" where
  "returns_normally k exec =
     (\<forall>p vm. handlers (exec p vm) = handlers vm
           \<and> same_top_frame vm (exec p vm)
           \<and> numVals (exec p vm) \<le> int (SCM_VM_MAX_VALUES k)
           \<and> length (vals (exec p vm)) = SCM_VM_MAX_VALUES k)"

lemma POP_CONT_ccont:
  assumes "c_argp (conts vm (cont vm)) = NULL" and "c_pc (conts vm (cont vm)) = CProc f"
    and "c_size (conts vm (cont vm)) = int (length d)" and "c_data (conts vm (cont vm)) = d"
  shows "\<exists>vm4. handlers vm4 = handlers vm \<and> vals vm4 = vals vm \<and> numVals vm4 = numVals vm
          \<and> POP_CONT k vm = (case CALL_CCONT k vm4 f (val0 vm) d of
                               Inl e \<Rightarrow> Inl e
                             | Inr (r, vm5) \<Rightarrow> Inr (vm5\<lparr>val0 := r\<rparr>))"
proof -
  let ?c = "cont vm" and ?fr = "conts vm (cont vm)"
  let ?vm1 = "if IN_STACK_P k ?c then vm\<lparr>sp := stk_off ?c\<rparr> else vm"
  let ?vm4 = "?vm1\<lparr>env := c_env ?fr, argp := sp ?vm1, pc := PC_TO_RETURN, base := c_base ?fr, cont := c_prev ?fr\<rparr>"
  have "POP_CONT k vm = (case CALL_CCONT k ?vm4 f (val0 vm) d of
                               Inl e \<Rightarrow> Inl e
                             | Inr (r, vm5) \<Rightarrow> Inr (vm5\<lparr>val0 := r\<rparr>))"
    using assms by (simp add: POP_CONT_def Let_def)
  moreover have "handlers ?vm4 = handlers vm \<and> vals ?vm4 = vals vm \<and> numVals ?vm4 = numVals vm"
    by simp
  ultimately show ?thesis by blast
qed

lemma PushCC_facts:
  "handlers (Scm_VMPushCC k vm f d) = handlers vm"
  "vals (Scm_VMPushCC k vm f d) = vals vm"
  "numVals (Scm_VMPushCC k vm f d) = numVals vm"
  "val0 (Scm_VMPushCC k vm f d) = val0 vm"
  using Scm_VMPushCC_ctl_kept[where vm=vm and k=k and after=f and data=d]
  by (simp_all add: ctl_kept_def)

definition top_is :: "ScmVM \<Rightarrow> ccont \<Rightarrow> word list \<Rightarrow> bool" where
  "top_is vm f d =
     (c_argp (conts vm (cont vm)) = NULL \<and> c_pc (conts vm (cont vm)) = CProc f
      \<and> c_size (conts vm (cont vm)) = int (length d) \<and> c_data (conts vm (cont vm)) = d)"

lemma top_is_PushCC: "top_is (Scm_VMPushCC k vm f d) f d"
  by (simp add: top_is_def Scm_VMPushCC_def Let_def)

lemma top_is_upd:
  "top_is (vm\<lparr>pc := x\<rparr>) f d = top_is vm f d"
  "top_is (vm\<lparr>val0 := y\<rparr>) f d = top_is vm f d"
  by (simp_all add: top_is_def)

lemma top_is_exec: "returns_normally k exec \<Longrightarrow> top_is vm f d \<Longrightarrow> top_is (exec p vm) f d"
  by (simp add: returns_normally_def top_is_def same_top_frame_def)

lemma call_thunk_step:
  assumes rn: "returns_normally k exec" and top: "top_is vm f d"
  shows "\<exists>vm4. handlers vm4 = handlers vm
          \<and> vals vm4 = vals (exec p (vm\<lparr>val0 := p\<rparr>))
          \<and> numVals vm4 = numVals (exec p (vm\<lparr>val0 := p\<rparr>))
          \<and> call_thunk exec k p vm =
                (case CALL_CCONT k vm4 f (val0 (exec p (vm\<lparr>val0 := p\<rparr>))) d of
                   Inl e \<Rightarrow> Inl e
                 | Inr (r, vm5) \<Rightarrow> Inr (vm5\<lparr>val0 := r\<rparr>))"
proof -
  let ?v = "exec p (vm\<lparr>val0 := p\<rparr>)"
  have t: "top_is ?v f d" using top_is_exec[OF rn] top by (simp add: top_is_upd)
  have h: "handlers ?v = handlers vm" using rn by (simp add: returns_normally_def)
  obtain vm4 where v4: "handlers vm4 = handlers ?v" "vals vm4 = vals ?v" "numVals vm4 = numVals ?v"
    "POP_CONT k ?v = (case CALL_CCONT k vm4 f (val0 ?v) d of
                               Inl e \<Rightarrow> Inl e
                             | Inr (r, vm5) \<Rightarrow> Inr (vm5\<lparr>val0 := r\<rparr>))"
    using POP_CONT_ccont[where vm="?v" and f=f and d=d and k=k] t unfolding top_is_def by blast
  show ?thesis
    by (rule exI[of _ vm4]) (simp only: v4 h call_thunk_def simp_thms)
qed

lemma memcpy_objs_take:
  "n \<le> length src \<Longrightarrow> n \<le> length dst \<Longrightarrow> take n (memcpy_objs dst src n) = take n src"
  by (rule nth_equalityI) (simp_all add: memcpy_objs_def)

text \<open>
  C2. For all procedures \<open>before\<close>, \<open>body\<close> and \<open>after\<close> that return normally:
  \<open>Scm_VMDynamicWind\<close> arranges the call of \<open>before\<close> under the current handler list; when
  it returns, the cell \<open>(before . after)\<close> is put in front of the handler list and \<open>body\<close>
  is called; when \<open>body\<close> returns, the prior handler list is back and \<open>after\<close> is
  called; and when \<open>after\<close> returns, \<open>val0\<close>, \<open>numVals\<close> and the first \<open>numVals - 1\<close>
  entries of \<open>vals\<close> are those \<open>body\<close> returned with, whatever \<open>after\<close> left there.
\<close>

theorem dynamic_wind_sequence:
  assumes rn: "returns_normally k exec"
  shows "\<exists>vm0 vm1 vm2 vm3 a.
           Scm_VMDynamicWind k vm before body after = (before, vm0)
         \<and> pc vm0 = apply_calls 0 \<and> handlers vm0 = handlers vm
         \<and> call_thunk exec k before vm0 = Inr vm1
         \<and> val0 vm1 = body \<and> pc vm1 = apply_calls 0
         \<and> handlers vm1 = HCell a before after # handlers vm
         \<and> call_thunk exec k body vm1 = Inr vm2
         \<and> val0 vm2 = after \<and> pc vm2 = apply_calls 0 \<and> handlers vm2 = handlers vm
         \<and> call_thunk exec k after vm2 = Inr vm3
         \<and> handlers vm3 = handlers vm
         \<and> val0 vm3 = val0 (exec body (vm1\<lparr>val0 := body\<rparr>))
         \<and> numVals vm3 = numVals (exec body (vm1\<lparr>val0 := body\<rparr>))
         \<and> take (nat (numVals vm3 - 1)) (vals vm3)
              = take (nat (numVals vm3 - 1)) (vals (exec body (vm1\<lparr>val0 := body\<rparr>)))"
proof -
  let ?d0 = "[ObjW before, ObjW body, ObjW after]"
  let ?vm0 = "(Scm_VMPushCC k vm Dynwind_before_cc ?d0)\<lparr>pc := apply_calls 0\<rparr>"
  have dw: "Scm_VMDynamicWind k vm before body after = (before, ?vm0)"
    by (simp add: Scm_VMDynamicWind_def Scm_VMApply0_def)
  have h0: "handlers ?vm0 = handlers vm" "pc ?vm0 = apply_calls 0" by (simp_all add: PushCC_facts)
  have t0: "top_is ?vm0 Dynwind_before_cc ?d0" by (simp add: top_is_upd top_is_PushCC)
  \<comment> \<open>before returns\<close>
  obtain w1 where w1: "handlers w1 = handlers ?vm0"
    and c1: "call_thunk exec k before ?vm0 =
                (case CALL_CCONT k w1 Dynwind_before_cc (val0 (exec before (?vm0\<lparr>val0 := before\<rparr>))) ?d0 of
                   Inl e \<Rightarrow> Inl e
                 | Inr (r, vm5) \<Rightarrow> Inr (vm5\<lparr>val0 := r\<rparr>))"
    using call_thunk_step[OF rn t0, where p=before] by blast
  let ?a = "heapNext w1"
  let ?d1 = "[ObjW after, HandlersW (handlers w1)]"
  let ?u1 = "w1\<lparr>handlers := HCell ?a before after # handlers w1, heapNext := heapNext w1 + 2\<rparr>"
  let ?vm1 = "(Scm_VMPushCC k ?u1 Dynwind_body_cc ?d1)\<lparr>pc := apply_calls 0, val0 := body\<rparr>"
  have r1: "call_thunk exec k before ?vm0 = Inr ?vm1"
    unfolding c1 by (simp add: CALL_CCONT_def dynwind_before_cc_def Let_def Scm_VMApply0_def)
  have h1: "handlers ?vm1 = HCell ?a before after # handlers vm" "val0 ?vm1 = body" "pc ?vm1 = apply_calls 0"
    using w1 h0 by (simp_all add: PushCC_facts)
  have t1: "top_is ?vm1 Dynwind_body_cc ?d1" by (simp add: top_is_upd top_is_PushCC)
  \<comment> \<open>body returns\<close>
  let ?b = "exec body (?vm1\<lparr>val0 := body\<rparr>)"
  obtain w2 where w2: "handlers w2 = handlers ?vm1" "vals w2 = vals ?b" "numVals w2 = numVals ?b"
    and c2: "call_thunk exec k body ?vm1 =
                (case CALL_CCONT k w2 Dynwind_body_cc (val0 ?b) ?d1 of
                   Inl e \<Rightarrow> Inl e
                 | Inr (r, vm5) \<Rightarrow> Inr (vm5\<lparr>val0 := r\<rparr>))"
    using call_thunk_step[OF rn t1, where p=body] by blast
  let ?n = "numVals ?b"
  let ?d2 = "[ObjW (val0 ?b), IntW ?n, if ?n > 1 then ArrW (take (nat (?n - 1)) (vals ?b)) else NULLW]"
  let ?u2 = "w2\<lparr>handlers := handlers w1\<rparr>"
  let ?u2' = "if ?n > 1 then ?u2\<lparr>heapNext := heapNext ?u2 + 1\<rparr> else ?u2"
  let ?vm2 = "(Scm_VMPushCC k ?u2' Dynwind_after_cc ?d2)\<lparr>pc := apply_calls 0, val0 := after\<rparr>"
  have r2: "call_thunk exec k body ?vm1 = Inr ?vm2"
    unfolding c2 using w2 by (simp add: CALL_CCONT_def dynwind_body_cc_def Let_def Scm_VMApply0_def)
  have h2: "handlers ?vm2 = handlers vm" "val0 ?vm2 = after" "pc ?vm2 = apply_calls 0"
    using w1 h0 by (simp_all add: PushCC_facts)
  have t2: "top_is ?vm2 Dynwind_after_cc ?d2" by (simp add: top_is_upd top_is_PushCC)
  \<comment> \<open>after returns\<close>
  let ?c = "exec after (?vm2\<lparr>val0 := after\<rparr>)"
  obtain w3 where w3: "handlers w3 = handlers ?vm2" "vals w3 = vals ?c" "numVals w3 = numVals ?c"
    and c3: "call_thunk exec k after ?vm2 =
                (case CALL_CCONT k w3 Dynwind_after_cc (val0 ?c) ?d2 of
                   Inl e \<Rightarrow> Inl e
                 | Inr (r, vm5) \<Rightarrow> Inr (vm5\<lparr>val0 := r\<rparr>))"
    using call_thunk_step[OF rn t2, where p=after] by blast
  have nb: "?n \<le> int (SCM_VM_MAX_VALUES k)" "length (vals ?b) = SCM_VM_MAX_VALUES k"
    "length (vals ?c) = SCM_VM_MAX_VALUES k"
    using rn by (simp_all add: returns_normally_def)
  let ?vm3 = "(if ?n > 1
               then w3\<lparr>numVals := ?n, vals := memcpy_objs (vals w3) (take (nat (?n - 1)) (vals ?b)) (nat (?n - 1))\<rparr>
               else w3\<lparr>numVals := ?n\<rparr>)\<lparr>val0 := val0 ?b\<rparr>"
  have r3: "call_thunk exec k after ?vm2 = Inr ?vm3"
    unfolding c3 using nb by (simp add: CALL_CCONT_def dynwind_after_cc_def Let_def)
  have h3: "handlers ?vm3 = handlers vm" "val0 ?vm3 = val0 ?b" "numVals ?vm3 = ?n"
    using w3 h2 by simp_all
  have v3: "take (nat (?n - 1)) (vals ?vm3) = take (nat (?n - 1)) (vals ?b)"
  proof (cases "?n > 1")
    case True
    have l: "nat (?n - 1) \<le> length (vals ?b)" "nat (?n - 1) \<le> length (vals w3)"
      using nb w3 by simp_all
    have "take (nat (?n - 1)) (memcpy_objs (vals w3) (take (nat (?n - 1)) (vals ?b)) (nat (?n - 1)))
        = take (nat (?n - 1)) (take (nat (?n - 1)) (vals ?b))"
      by (rule memcpy_objs_take) (use l in simp_all)
    then show ?thesis using True by simp
  next
    case False
    then show ?thesis by simp
  qed
  have e1: "?vm1\<lparr>val0 := body\<rparr> = ?vm1" by simp
  show ?thesis
    apply (rule exI[of _ ?vm0], rule exI[of _ ?vm1], rule exI[of _ ?vm2], rule exI[of _ ?vm3], rule exI[of _ ?a])
    using dw h0 r1 h1 r2 h2 r3 h3 v3 by (simp only: simp_thms)
qed

definition exec0 :: "ScmObj \<Rightarrow> ScmVM \<Rightarrow> ScmVM" where
  "exec0 p vm =
     (if p = Obj 2
      then vm\<lparr>val0 := Obj 30, vals := [Obj 31, SCM_UNDEFINED, SCM_UNDEFINED, SCM_UNDEFINED], numVals := 2\<rparr>
      else vm\<lparr>val0 := Obj 9, vals := [Obj 8, Obj 7, SCM_UNDEFINED, SCM_UNDEFINED], numVals := 3\<rparr>)"

theorem dynamic_wind_sequence_witness:
  "returns_normally k0 exec0
   \<and> (\<exists>vm0 vm1 vm2 vm3.
         Scm_VMDynamicWind k0 (Scm_NewVM k0) (Obj 1) (Obj 2) (Obj 3) = (Obj 1, vm0)
       \<and> call_thunk exec0 k0 (Obj 1) vm0 = Inr vm1
       \<and> call_thunk exec0 k0 (Obj 2) vm1 = Inr vm2
       \<and> call_thunk exec0 k0 (Obj 3) vm2 = Inr vm3
       \<and> val0 vm3 = Obj 30 \<and> numVals vm3 = 2 \<and> take 1 (vals vm3) = [Obj 31]
       \<and> handlers vm3 = [])"
proof -
  have rn: "returns_normally k0 exec0"
    by (simp add: returns_normally_def exec0_def same_top_frame_def k0_def)
  obtain vm0 vm1 vm2 vm3 a where
    t: "Scm_VMDynamicWind k0 (Scm_NewVM k0) (Obj 1) (Obj 2) (Obj 3) = (Obj 1, vm0)"
      "call_thunk exec0 k0 (Obj 1) vm0 = Inr vm1"
      "call_thunk exec0 k0 (Obj 2) vm1 = Inr vm2"
      "call_thunk exec0 k0 (Obj 3) vm2 = Inr vm3"
      "handlers vm3 = handlers (Scm_NewVM k0)"
      "val0 vm3 = val0 (exec0 (Obj 2) (vm1\<lparr>val0 := Obj 2\<rparr>))"
      "numVals vm3 = numVals (exec0 (Obj 2) (vm1\<lparr>val0 := Obj 2\<rparr>))"
      "take (nat (numVals vm3 - 1)) (vals vm3)
              = take (nat (numVals vm3 - 1)) (vals (exec0 (Obj 2) (vm1\<lparr>val0 := Obj 2\<rparr>)))"
    using dynamic_wind_sequence[OF rn, where vm="Scm_NewVM k0" and before="Obj 1" and body="Obj 2" and after="Obj 3"]
    by blast
  have v: "val0 vm3 = Obj 30" "numVals vm3 = 2" using t(6,7) by (simp_all add: exec0_def)
  have "take (nat (2 - 1)) (vals vm3) = take (nat (2 - 1)) [Obj 31, SCM_UNDEFINED, SCM_UNDEFINED, SCM_UNDEFINED]"
    using t(8) unfolding v by (simp add: exec0_def)
  then have w: "take 1 (vals vm3) = [Obj 31]" by simp
  have h: "handlers vm3 = []" using t(5) by (simp add: Scm_NewVM_def)
  show ?thesis using rn t(1-4) v w h by blast
qed

section \<open>Running the handler adjustment\<close>

text \<open>
  \<open>VAL0 = f(...)\<close>: the loop and \<open>POP_CONT\<close> store in \<open>val0\<close> what a C function returns. When
  the function has returned through \<open>Scm_VMApply0\<close>, \<open>val0\<close> is the procedure to call and
  \<open>pc\<close> the code that calls it. \<open>run_calls exec k n\<close> lets the loop make \<open>n\<close> such calls, one
  after the other, each followed by the return of the procedure into the continuation frame
  on top (\<open>call_thunk\<close>), and records every procedure called with the handler list in force
  at the call.
\<close>

definition ret_val0 :: "(error \<times> ScmVM) + (ScmObj \<times> ScmVM) \<Rightarrow> (error \<times> ScmVM) + ScmVM" where
  "ret_val0 r = (case r of Inl e \<Rightarrow> Inl e | Inr (v, vm) \<Rightarrow> Inr (vm\<lparr>val0 := v\<rparr>))"

fun run_calls ::
  "(ScmObj \<Rightarrow> ScmVM \<Rightarrow> ScmVM) \<Rightarrow> vmconst \<Rightarrow> nat \<Rightarrow> (error \<times> ScmVM) + ScmVM
   \<Rightarrow> (ScmObj \<times> hcell list) list \<times> ((error \<times> ScmVM) + ScmVM)" where
  "run_calls exec k 0 r = ([], r)"
| "run_calls exec k (Suc n) (Inl e) = ([], Inl e)"
| "run_calls exec k (Suc n) (Inr vm) =
     (case run_calls exec k n (call_thunk exec k (val0 vm) vm) of
        (tr, r) \<Rightarrow> ((val0 vm, handlers vm) # tr, r))"

lemma call_thunk_throw_cont_cc:
  assumes rn: "returns_normally k exec" and top: "top_is vm Throw_cont_cc [ThunksW rest, EpW ep, ListW args]"
  shows "\<exists>vm4. call_thunk exec k p vm = ret_val0 (throw_cont_body k vm4 rest ep args)"
proof -
  obtain vm4 where c: "call_thunk exec k p vm =
                (case CALL_CCONT k vm4 Throw_cont_cc (val0 (exec p (vm\<lparr>val0 := p\<rparr>)))
                        [ThunksW rest, EpW ep, ListW args] of
                   Inl e \<Rightarrow> Inl e
                 | Inr (r, vm5) \<Rightarrow> Inr (vm5\<lparr>val0 := r\<rparr>))"
    using call_thunk_step[OF rn top, where p=p] by blast
  have "call_thunk exec k p vm = ret_val0 (throw_cont_body k vm4 rest ep args)"
    unfolding c by (simp add: CALL_CCONT_def throw_cont_cc_def ret_val0_def split: sum.splits prod.splits)
  then show ?thesis by blast
qed

lemma run_calls_throw_cont_body:
  assumes rn: "returns_normally k exec"
  shows "\<exists>vmF. run_calls exec k (length hs) (ret_val0 (throw_cont_body k vm hs ep args))
                 = (hs, ret_val0 (throw_cont_body k vmF [] ep args))"
proof (induction hs arbitrary: vm)
  case Nil
  show ?case by (rule exI[of _ vm]) simp
next
  case (Cons x rest)
  obtain h chain where x: "x = (h, chain)" by (cases x) auto
  let ?d = "[ThunksW rest, EpW ep, ListW args]"
  let ?vA = "(Scm_VMPushCC k vm Throw_cont_cc ?d)\<lparr>handlers := chain, pc := apply_calls 0, val0 := h\<rparr>"
  have b: "ret_val0 (throw_cont_body k vm (x # rest) ep args) = Inr ?vA"
    unfolding x by (simp add: throw_cont_body_def Let_def Scm_VMApply0_def ret_val0_def)
  have top: "top_is ?vA Throw_cont_cc ?d"
    using top_is_PushCC[of k vm Throw_cont_cc ?d] by (simp add: top_is_def)
  obtain vm4 where c: "call_thunk exec k h ?vA = ret_val0 (throw_cont_body k vm4 rest ep args)"
    using call_thunk_throw_cont_cc[OF rn top, where p=h] by blast
  obtain vmF where ih: "run_calls exec k (length rest) (ret_val0 (throw_cont_body k vm4 rest ep args))
                 = (rest, ret_val0 (throw_cont_body k vmF [] ep args))"
    using Cons.IH[of vm4] by blast
  have v: "val0 ?vA = h" "handlers ?vA = chain" by simp_all
  have "run_calls exec k (length (x # rest)) (Inr ?vA)
          = (x # rest, ret_val0 (throw_cont_body k vmF [] ep args))"
    using c ih v unfolding x by simp
  then show ?case unfolding b by blast
qed

text \<open>
  C4 (as amended). For every current handler list \<open>C\<close> and target list \<open>T\<close> the adjustment
  computed is: for each cell of \<open>C\<close> taken from the front that is not present in
  \<open>reverse(T)\<close>, the cell's after-thunk paired with the current handler list truncated by
  one (the rest of \<open>C\<close> after the cell); followed by, for each cell of \<open>reverse(T)\<close> not
  present in \<open>C\<close>, the cell's before-thunk paired with the part of \<open>T\<close> that follows the cell
  (the handler list before the cell is included); the assertion on \<open>chain\<close> never fails. And
  the calls run in that order: when every procedure returns normally, \<open>throw_cont_body\<close>
  and \<open>throw_cont_cc\<close> make the loop call the thunks of a list \<open>hs\<close> one after the other
  from the head, each under the handler list paired with it, and after the last the
  continuation is installed (\<open>throw_cont_body\<close> with no handler left).
\<close>

theorem throw_cont_calculate_handlers_adjustment:
  "throw_cont_calculate_handlers ep vm = Inr (handler_adjustment (handlers vm) (ep_handlers (eps vm ep)))
   \<and> (returns_normally k exec \<longrightarrow>
        (\<exists>vmF. run_calls exec k (length hs) (ret_val0 (throw_cont_body k vm hs ep args))
                 = (hs, ret_val0 (throw_cont_body k vmF [] ep args))))"
  using calculate_handlers_eq run_calls_throw_cont_body by blast

text \<open>
  One current cell, to leave, and one target cell, to enter: the after-thunk of the first is
  called, then the before-thunk of the second, both under the empty handler list, and then
  the continuation is installed with the target list.
\<close>

definition vm_two_cells :: ScmVM where
  "vm_two_cells = (Scm_NewVM k0)\<lparr>handlers := [HCell 1 (Obj 10) (Obj 11)],
      eps := (\<lambda>_. zero_ep)(0 := zero_ep\<lparr>ep_handlers := [HCell 2 (Obj 20) (Obj 21)], ep_cstack := Some 0\<rparr>)\<rparr>"

theorem throw_cont_calculate_handlers_adjustment_witness:
  "returns_normally k0 exec0
   \<and> throw_cont_calculate_handlers 0 vm_two_cells = Inr [(Obj 11, []), (Obj 20, [])]
   \<and> fst (run_calls exec0 k0 2
            (ret_val0 (throw_cont_body k0 vm_two_cells [(Obj 11, []), (Obj 20, [])] 0 [Obj 5])))
       = [(Obj 11, []), (Obj 20, [])]
   \<and> (\<exists>vmF. snd (run_calls exec0 k0 2
                  (ret_val0 (throw_cont_body k0 vm_two_cells [(Obj 11, []), (Obj 20, [])] 0 [Obj 5])))
              = Inr vmF \<and> val0 vmF = Obj 5 \<and> pc vmF = PC_TO_RETURN)"
proof -
  have rn: "returns_normally k0 exec0"
    by (simp add: returns_normally_def exec0_def same_top_frame_def k0_def)
  have ha: "handler_adjustment (handlers vm_two_cells) (ep_handlers (eps vm_two_cells 0))
              = [(Obj 11, []), (Obj 20, [])]"
    by (simp add: handler_adjustment_def vm_two_cells_def Scm_NewVM_def zero_ep_def)
  note t = throw_cont_calculate_handlers_adjustment[where ep=0 and vm=vm_two_cells and k=k0 and exec=exec0
      and hs="[(Obj 11, []), (Obj 20, [])]" and args="[Obj 5]"]
  have a: "throw_cont_calculate_handlers 0 vm_two_cells = Inr [(Obj 11, []), (Obj 20, [])]"
    using t ha by simp
  have l: "length [(Obj 11, [] :: hcell list), (Obj 20, [])] = 2" by simp
  obtain vmF where f: "run_calls exec0 k0 2
            (ret_val0 (throw_cont_body k0 vm_two_cells [(Obj 11, []), (Obj 20, [])] 0 [Obj 5]))
       = ([(Obj 11, []), (Obj 20, [])], ret_val0 (throw_cont_body k0 vmF [] 0 [Obj 5]))"
    using t rn unfolding l by blast
  have g: "\<exists>w. ret_val0 (throw_cont_body k0 vmF [] 0 [Obj 5]) = Inr w \<and> val0 w = Obj 5 \<and> pc w = PC_TO_RETURN"
    by (simp add: throw_cont_body_def Let_def ret_val0_def)
  show ?thesis using rn a f g by simp
qed

text \<open>
  Pairing a before-thunk with the handler list extended to include its cell
  (\<open>claimed_adjustment\<close>) is not what is computed: with no current handler and one target
  cell the code pairs the before-thunk with the empty list.
\<close>

definition vm_one_target :: ScmVM where
  "vm_one_target = (Scm_NewVM k0)\<lparr>eps := (\<lambda>_. zero_ep)(0 := zero_ep\<lparr>ep_handlers := [HCell 1 (Obj 10) (Obj 11)]\<rparr>)\<rparr>"

theorem throw_cont_calculate_handlers_counterexample:
  "throw_cont_calculate_handlers 0 vm_one_target = Inr [(Obj 10, [])]
   \<and> claimed_adjustment (handlers vm_one_target) (ep_handlers (eps vm_one_target 0))
       = [(Obj 10, [HCell 1 (Obj 10) (Obj 11)])]
   \<and> throw_cont_calculate_handlers 0 vm_one_target
       \<noteq> Inr (claimed_adjustment (handlers vm_one_target) (ep_handlers (eps vm_one_target 0)))"
  by (simp add: throw_cont_calculate_handlers_def vm_one_target_def Scm_NewVM_def claimed_adjustment_def
        zero_ep_def Let_def)

section \<open>The continuation that saving leaves\<close>

lemma not_in_stack_Heap [simp]: "\<not> IN_STACK_P k (Heap b i)" and not_in_stack_NULL [simp]: "\<not> IN_STACK_P k NULL"
  by (simp_all add: IN_STACK_P_def)

lemma in_stack_Stk [simp]: "IN_STACK_P k (Stk n) = (n < SCM_VM_STACK_SIZE k)"
  by (simp add: IN_STACK_P_def)

lemma save_env_heapNext: "heapNext vm \<le> heapNext (snd (save_env k vm e))"
  by (rule envs_onlyD(2)[OF save_env_only])

lemma save_env_conts: "conts (snd (save_env k vm e)) = conts vm"
  by (rule envs_onlyD(1)[OF save_env_only])

text \<open>
  A frame of the stack is \<open>forwarded_out\<close> when its size is -1 and its \<open>prev\<close> lies outside
  the stack. The first pass leaves the frame it starts from in that state, whatever the VM.
\<close>

definition forwarded_out :: "vmconst \<Rightarrow> ScmVM \<Rightarrow> ptr \<Rightarrow> bool" where
  "forwarded_out k vm x = (c_size (conts vm x) = -1 \<and> \<not> IN_STACK_P k (c_prev (conts vm x)))"

lemma save_cont_env_fields:
  "c_prev (conts (save_cont_env k vm c) p) = c_prev (conts vm p)"
  "c_size (conts (save_cont_env k vm c) p) = c_size (conts vm p)"
proof -
  have e: "conts (snd (save_env k vm e)) = conts vm" for e
    by (rule save_env_conts)
  show "c_prev (conts (save_cont_env k vm c) p) = c_prev (conts vm p)"
    by (rule save_cont_env_prev)
  show "c_size (conts (save_cont_env k vm c) p) = c_size (conts vm p)"
    using e by (auto simp: save_cont_env_def Let_def split: prod.splits) (metis snd_conv)+
qed

lemma save_cont_move_forwarded:
  assumes mv: "save_cont_move k vm c prev = (vm', csave, tmp)" and c: "IN_STACK_P k c"
  shows "forwarded_out k vm' c"
    and "\<And>x. IN_STACK_P k x \<Longrightarrow> forwarded_out k vm x \<Longrightarrow> forwarded_out k vm' x"
proof -
  let ?v1 = "save_cont_env k (vm\<lparr>heapNext := heapNext vm + 1\<rparr>) c"
  let ?cs = "Heap (heapNext vm) 0"
  have f1: "c_prev (conts ?v1 p) = c_prev (conts vm p)" "c_size (conts ?v1 p) = c_size (conts vm p)" for p
    using save_cont_env_fields[of k "vm\<lparr>heapNext := heapNext vm + 1\<rparr>" c p] by simp_all
  have cc: "c \<noteq> ?cs" using c by auto
  have a: "c_size (conts vm' c) = -1" "c_prev (conts vm' c) = ?cs"
    using mv by (auto simp: save_cont_move_def Let_def)
  show "forwarded_out k vm' c" using a by (simp add: forwarded_out_def)
  fix x assume x: "IN_STACK_P k x" and g: "forwarded_out k vm x"
  have xc: "x \<noteq> ?cs" using x by auto
  show "forwarded_out k vm' x"
  proof (cases "x = c")
    case True then show ?thesis using a by (simp add: forwarded_out_def)
  next
    case False
    have "c_size (conts vm' x) = c_size (conts vm x)"
      using mv False xc f1 by (auto simp: save_cont_move_def Let_def)
    moreover have "c_prev (conts vm' x) = (if prev \<noteq> NULL \<and> prev = x then ?cs else c_prev (conts vm x))"
      using mv False xc f1 by (auto simp: save_cont_move_def Let_def)
    ultimately show ?thesis using g by (auto simp: forwarded_out_def)
  qed
qed

lemma save_cont_pass1_forwarded:
  "IN_STACK_P k c \<Longrightarrow>
   forwarded_out k (save_cont_pass1 k vm c prev) c
   \<and> (\<forall>x. IN_STACK_P k x \<and> forwarded_out k vm x \<longrightarrow> forwarded_out k (save_cont_pass1 k vm c prev) x)"
proof (induction k vm c prev rule: save_cont_pass1.induct)
  case (1 k vm c prev)
  obtain vm1 csave tmp where mv: "save_cont_move k vm c prev = (vm1, csave, tmp)"
    by (cases "save_cont_move k vm c prev") auto
  note m = save_cont_move_forwarded[OF mv "1.prems"]
  show ?case
  proof (cases "IN_STACK_P k tmp")
    case True
    have r: "save_cont_pass1 k vm c prev = save_cont_pass1 k vm1 tmp csave"
      by (subst save_cont_pass1.simps) (use mv True in simp)
    have ih: "forwarded_out k (save_cont_pass1 k vm1 tmp csave) tmp
      \<and> (\<forall>x. IN_STACK_P k x \<and> forwarded_out k vm1 x \<longrightarrow> forwarded_out k (save_cont_pass1 k vm1 tmp csave) x)"
      using 1(1)[OF mv[symmetric] refl True True] .
    show ?thesis unfolding r using ih m "1.prems" by blast
  next
    case False
    have r: "save_cont_pass1 k vm c prev = vm1"
      by (subst save_cont_pass1.simps) (use mv False in simp)
    show ?thesis unfolding r using m by blast
  qed
qed

lemma save_cont_outside_id:
  assumes "\<not> IN_STACK_P k (cont vm)"
  shows "conts (save_cont k vm) = conts vm" and "eps (save_cont k vm) = eps vm"
    and "cont (save_cont k vm) = cont vm"
proof -
  obtain e vm0 where se: "save_env k vm (env vm) = (e, vm0)" by (cases "save_env k vm (env vm)") auto
  have m0: "mem_only vm vm0" using envs_only_mem_only[OF save_env_only[of vm k "env vm"]] se by simp
  have sc: "save_cont k vm = vm0\<lparr>env := e\<rparr>" using assms se by (simp add: save_cont_def Let_def)
  show "conts (save_cont k vm) = conts vm" unfolding sc using save_env_conts[of k vm "env vm"] se by simp
  show "eps (save_cont k vm) = eps vm" "cont (save_cont k vm) = cont vm"
    unfolding sc using mem_only_eps[OF m0] by simp_all
qed

lemma save_cont_cont_outside: "\<not> IN_STACK_P k (cont (save_cont k vm))"
proof (cases "IN_STACK_P k (cont vm)")
  case False
  then show ?thesis using save_cont_outside_id(3)[OF False] by simp
next
  case True
  obtain e vm0 where se: "save_env k vm (env vm) = (e, vm0)" by (cases "save_env k vm (env vm)") auto
  have m0: "mem_only vm vm0" using envs_only_mem_only[OF save_env_only[of vm k "env vm"]] se by simp
  let ?v0 = "vm0\<lparr>env := e\<rparr>"
  let ?c = "cont vm"
  let ?v1 = "save_cont_pass1 k ?v0 ?c NULL"
  have m1: "mem_only ?v0 ?v1" by (rule save_cont_pass1_mem_only)
  have c1: "cont ?v1 = ?c" using mem_only_eps[OF m1] mem_only_eps[OF m0] by simp
  have g: "forwarded_out k ?v1 ?c" using save_cont_pass1_forwarded[OF True] by blast
  then have fw: "FORWARDED_CONT_P ?v1 (cont ?v1)" and ns: "\<not> IN_STACK_P k (c_prev (conts ?v1 ?c))"
    using True unfolding c1 by (auto simp: forwarded_out_def FORWARDED_CONT_P_def)
  let ?v2 = "?v1\<lparr>cont := c_prev (conts ?v1 ?c)\<rparr>"
  let ?v3 = "save_cont_cstk_loop ?v2 (cstack ?v2)"
  let ?v4 = "save_cont_ep_loop ?v3 (escapePoint ?v3)"
  let ?v5 = "save_cont_ep_loop ?v4 (floatingEP ?v4)"
  have sc: "save_cont k vm = ?v5"
    using True se fw c1 by (simp add: save_cont_def Let_def)
  have "cont ?v5 = cont ?v2"
    using save_cont_ep_loop_kept[of ?v4 "floatingEP ?v4"] save_cont_ep_loop_kept[of ?v3 "escapePoint ?v3"]
      save_cont_cstk_loop_kept[of ?v2 "cstack ?v2"] by simp
  then show ?thesis unfolding sc using ns by simp
qed

lemma CHECK_STACK_outside:
  assumes "\<not> IN_STACK_P k (cont vm)"
  shows "eps (CHECK_STACK k vm n) = eps vm" and "cont (CHECK_STACK k vm n) = cont vm"
    and "conts (CHECK_STACK k vm n) (Heap b i) = conts vm (Heap b i)"
  using save_cont_outside_id[OF assms]
  by (simp_all add: CHECK_STACK_def save_stack_eq cleared_def moved_def)

section \<open>Capturing and invoking a continuation\<close>

text \<open>
  C5. \<open>Scm_VMCallCC\<close> saves the continuation: the register \<open>cont\<close> that \<open>save_cont\<close> leaves
  lies outside the stack. It records that continuation, the handler list and the host-stack
  record in a new escape point, and arranges the call of \<open>proc\<close> with the continuation
  procedure as its argument (the top of the stack). Invoking that procedure at once with
  the single argument \<open>V\<close> computes an empty handler adjustment, so no before- or
  after-thunk is called, and returns \<open>V\<close> with the recorded continuation installed in
  \<open>cont\<close>, \<open>pc\<close> at the return code, the handler list as it was, and every frame of the heap as
  \<open>save_cont\<close> left it.
\<close>

theorem call_cc_throw_roundtrip:
  "fst (Scm_VMCallCC k vm proc) = proc
   \<and> stack (snd (Scm_VMCallCC k vm proc)) (sp (snd (Scm_VMCallCC k vm proc)) - 1)
        = ObjW (Continuation (heapNext (save_cont k vm)))
   \<and> ep_cont (eps (snd (Scm_VMCallCC k vm proc)) (heapNext (save_cont k vm))) = cont (save_cont k vm)
   \<and> ep_handlers (eps (snd (Scm_VMCallCC k vm proc)) (heapNext (save_cont k vm))) = handlers vm
   \<and> ep_cstack (eps (snd (Scm_VMCallCC k vm proc)) (heapNext (save_cont k vm))) = cstack_ptr vm
   \<and> \<not> IN_STACK_P k (cont (save_cont k vm))
   \<and> throw_cont_calculate_handlers (heapNext (save_cont k vm)) (snd (Scm_VMCallCC k vm proc)) = Inr []
   \<and> (\<exists>vm2. throw_continuation k (snd (Scm_VMCallCC k vm proc)) [V] (heapNext (save_cont k vm)) = Inr (V, vm2)
          \<and> handlers vm2 = handlers vm
          \<and> pc vm2 = PC_TO_RETURN
          \<and> cont vm2 = cont (save_cont k vm)
          \<and> cont vm2 = ep_cont (eps vm2 (heapNext (save_cont k vm)))
          \<and> cstack vm2 = cstack vm
          \<and> (\<forall>b i. conts vm2 (Heap b i) = conts (save_cont k vm) (Heap b i)))"
proof -
  let ?ep = "heapNext (save_cont k vm)"
  let ?vm1 = "save_cont k vm"
  let ?vm3 = "?vm1\<lparr>heapNext := heapNext ?vm1 + 1,
      eps := (eps ?vm1)(?ep := (eps ?vm1 ?ep)\<lparr>ep_ehandler := SCM_FALSE, ep_cont := cont ?vm1,
                                   ep_handlers := handlers ?vm1, ep_cstack := cstack_ptr ?vm1\<rparr>)\<rparr>"
  let ?r = "Scm_VMCallCC k vm proc"
  have r: "?r = Scm_VMApply1 k ?vm3 proc (Continuation ?ep)"
    by (simp add: Scm_VMCallCC_def Let_def cstack_ptr_def)
  have out1: "\<not> IN_STACK_P k (cont ?vm1)" by (rule save_cont_cont_outside)
  have out3: "\<not> IN_STACK_P k (cont ?vm3)" using out1 by simp
  note cs = CHECK_STACK_outside[OF out3, of 1]
  have k1: "ctl_kept vm ?vm1" by (rule save_cont_ctl_kept)
  have k3: "ctl_kept ?vm3 (snd ?r)" unfolding r by (rule Scm_VMApply1_ctl_kept)
  have h1: "handlers ?vm1 = handlers vm" "cstack ?vm1 = cstack vm"
    using k1 by (simp_all add: ctl_kept_def)
  have h3: "handlers (snd ?r) = handlers vm" "cstack (snd ?r) = cstack vm"
    "ep_handlers (eps (snd ?r) ?ep) = handlers vm"
    "ep_cstack (eps (snd ?r) ?ep) = cstack_ptr vm"
    using k3 h1 by (simp_all add: ctl_kept_def cstack_ptr_def)
  have er: "eps (snd ?r) = eps ?vm3" "cont (snd ?r) = cont ?vm1"
    "\<And>b i. conts (snd ?r) (Heap b i) = conts ?vm1 (Heap b i)"
    unfolding r using cs by (simp_all add: Scm_VMApply1_def Let_def PUSH_ARG_def)
  have ec: "ep_cont (eps (snd ?r) ?ep) = cont ?vm1" unfolding er by simp
  have cp: "cstack_ptr (snd ?r) = cstack_ptr vm" using h3 by (simp add: cstack_ptr_def)
  have 1: "fst ?r = proc" unfolding r by (simp add: Scm_VMApply1_def Let_def)
  have 2: "stack (snd ?r) (sp (snd ?r) - 1) = ObjW (Continuation ?ep)"
    unfolding r by (simp add: Scm_VMApply1_def Let_def PUSH_ARG_def)
  have 3: "throw_cont_calculate_handlers ?ep (snd ?r) = Inr []"
    by (simp add: calculate_handlers_eq h3 handler_adjustment_same)
  have tc: "throw_continuation k (snd ?r) [V] ?ep = throw_cont_body k (snd ?r) [] ?ep [V]"
    by (simp add: throw_continuation_def 3 h3 cp)
  let ?w = "if ep_cstack (eps (snd ?r) ?ep) = None then save_cont k (snd ?r) else snd ?r"
  have outr: "\<not> IN_STACK_P k (cont (snd ?r))" unfolding er using out1 .
  have kw: "ctl_kept (snd ?r) ?w" by (simp add: save_cont_ctl_kept ctl_kept_refl)
  have hw: "ep_handlers (eps ?w ?ep) = handlers vm" "cstack ?w = cstack vm"
    using kw h3 by (simp_all add: ctl_kept_def)
  have ew: "eps ?w = eps (snd ?r)" "conts ?w = conts (snd ?r)"
    using save_cont_outside_id[OF outr] by simp_all
  let ?vm2 = "?w\<lparr>pc := PC_TO_RETURN, cont := ep_cont (eps ?w ?ep), handlers := ep_handlers (eps ?w ?ep)\<rparr>"
  have tb: "throw_cont_body k (snd ?r) [] ?ep [V] = Inr (V, ?vm2)"
    by (simp add: throw_cont_body_def Let_def)
  have c2: "cont ?vm2 = cont ?vm1" "cont ?vm2 = ep_cont (eps ?vm2 ?ep)"
    using ew(1) ec by simp_all
  have f2: "conts ?vm2 (Heap b i) = conts ?vm1 (Heap b i)" for b i
    using ew(2) er(3) by simp
  have 4: "throw_continuation k (snd ?r) [V] ?ep = Inr (V, ?vm2) \<and> handlers ?vm2 = handlers vm
      \<and> pc ?vm2 = PC_TO_RETURN \<and> cont ?vm2 = cont ?vm1 \<and> cont ?vm2 = ep_cont (eps ?vm2 ?ep)
      \<and> cstack ?vm2 = cstack vm \<and> (\<forall>b i. conts ?vm2 (Heap b i) = conts ?vm1 (Heap b i))"
    using tc tb hw c2 f2 by simp
  show ?thesis using 1 2 ec h3(3,4) out1 3 4 by blast
qed

section \<open>Forwarding of continuation frames\<close>

text \<open>
  Well-formed states. \<open>cont_chain k vm c ns\<close>: the frames linked from \<open>c\<close> through \<open>prev\<close>
  inside the stack are those at the offsets \<open>ns\<close>, in this order; none is forwarded, and the
  link of the last leaves the stack. \<open>heap_closed\<close>: no frame outside the stack is forwarded
  or links into the stack. \<open>env_closed\<close>: the size of an environment frame of the stack is a
  count or -1; a forwarded one is forwarded to a frame outside the stack; and no environment
  frame outside the stack is forwarded. \<open>cont_reach vm\<close> relates a frame to the frames
  reachable from it through \<open>prev\<close>.

  \<open>fwd_cont k vm c\<close> and \<open>fwd_env k vm e\<close> follow the forwarding pointer of a frame of the
  stack (\<open>FORWARDED_CONT\<close>, \<open>FORWARDED_ENV\<close>) and leave a pointer outside the stack as it is.
  \<open>env_stable\<close>: the forwarded environment frames of the stack are the same in both states.
\<close>

fun cont_chain :: "vmconst \<Rightarrow> ScmVM \<Rightarrow> ptr \<Rightarrow> nat list \<Rightarrow> bool" where
  "cont_chain k vm c [] = (\<not> IN_STACK_P k c)"
| "cont_chain k vm c (n # ns) =
     (c = Stk n \<and> n < SCM_VM_STACK_SIZE k \<and> 0 \<le> c_size (conts vm (Stk n))
      \<and> cont_chain k vm (c_prev (conts vm (Stk n))) ns)"

definition heap_closed :: "vmconst \<Rightarrow> ScmVM \<Rightarrow> bool" where
  "heap_closed k vm =
     (\<forall>p. p \<noteq> NULL \<and> \<not> IN_STACK_P k p \<longrightarrow>
          c_size (conts vm p) \<noteq> -1 \<and> \<not> IN_STACK_P k (c_prev (conts vm p)))"

definition env_closed :: "vmconst \<Rightarrow> ScmVM \<Rightarrow> bool" where
  "env_closed k vm =
     ((\<forall>e. IN_STACK_P k e \<longrightarrow> -1 \<le> e_size (envs vm e))
      \<and> (\<forall>e. IN_STACK_P k e \<and> e_size (envs vm e) = -1 \<longrightarrow> \<not> IN_STACK_P k (e_up (envs vm e)))
      \<and> (\<forall>e. e \<noteq> NULL \<and> \<not> IN_STACK_P k e \<longrightarrow> e_size (envs vm e) \<noteq> -1))"

definition cont_reach :: "ScmVM \<Rightarrow> (ptr \<times> ptr) set" where
  "cont_reach vm = {(p, q). p \<noteq> NULL \<and> q = c_prev (conts vm p)}\<^sup>*"

definition env_stable :: "vmconst \<Rightarrow> ScmVM \<Rightarrow> ScmVM \<Rightarrow> bool" where
  "env_stable k vm vm' =
     (\<forall>e. IN_STACK_P k e \<and> e_size (envs vm e) = -1 \<longrightarrow> envs vm' e = envs vm e)"

definition fwd_env :: "vmconst \<Rightarrow> ScmVM \<Rightarrow> ptr \<Rightarrow> ptr" where
  "fwd_env k vm e = (if IN_STACK_P k e then e_up (envs vm e) else e)"

definition fwd_cont :: "vmconst \<Rightarrow> ScmVM \<Rightarrow> ptr \<Rightarrow> ptr" where
  "fwd_cont k vm c = (if IN_STACK_P k c then c_prev (conts vm c) else c)"

lemma env_closedD:
  assumes "env_closed k vm"
  shows "\<And>e. IN_STACK_P k e \<Longrightarrow> -1 \<le> e_size (envs vm e)"
    and "\<And>e. IN_STACK_P k e \<Longrightarrow> e_size (envs vm e) = -1 \<Longrightarrow> \<not> IN_STACK_P k (e_up (envs vm e))"
    and "\<And>e. e \<noteq> NULL \<Longrightarrow> \<not> IN_STACK_P k e \<Longrightarrow> e_size (envs vm e) \<noteq> -1"
  using assms unfolding env_closed_def by blast+

lemma env_closedI:
  assumes "\<And>e. IN_STACK_P k e \<Longrightarrow> -1 \<le> e_size (envs vm e)"
    and "\<And>e. IN_STACK_P k e \<Longrightarrow> e_size (envs vm e) = -1 \<Longrightarrow> \<not> IN_STACK_P k (e_up (envs vm e))"
    and "\<And>e. e \<noteq> NULL \<Longrightarrow> \<not> IN_STACK_P k e \<Longrightarrow> e_size (envs vm e) \<noteq> -1"
  shows "env_closed k vm"
  unfolding env_closed_def using assms by blast

lemma env_closed_cong: "envs vm' = envs vm \<Longrightarrow> env_closed k vm' = env_closed k vm"
  by (simp add: env_closed_def)

lemma env_stable_refl: "env_stable k vm vm"
  by (simp add: env_stable_def)

lemma env_stable_trans: "env_stable k a b \<Longrightarrow> env_stable k b c \<Longrightarrow> env_stable k a c"
  by (simp add: env_stable_def)

lemma env_stable_cong: "envs a' = envs a \<Longrightarrow> envs b' = envs b \<Longrightarrow> env_stable k a' b' = env_stable k a b"
  by (simp add: env_stable_def)

lemma fwd_env_stable:
  "env_stable k vm vm' \<Longrightarrow> (IN_STACK_P k e \<Longrightarrow> e_size (envs vm e) = -1) \<Longrightarrow> fwd_env k vm' e = fwd_env k vm e"
  by (auto simp: env_stable_def fwd_env_def)

text \<open>One iteration of \<open>save_env\<close> on an in-stack frame that is not forwarded.\<close>

lemma save_env_move_envs:
  assumes mv: "save_env_move vm e prev = (vm', saved, nxt)"
    and e: "IN_STACK_P k e" and pv: "\<not> IN_STACK_P k prev" and sz: "0 \<le> e_size (envs vm e)"
    and cl: "env_closed k vm"
  shows "env_closed k vm'" and "env_stable k vm vm'"
    and "saved \<noteq> NULL" and "\<not> IN_STACK_P k saved"
    and "e_size (envs vm' e) = -1" and "e_up (envs vm' e) = saved"
    and "conts vm' = conts vm" and "stack vm' = stack vm"
proof -
  let ?n = "nat (e_size (envs vm e))"
  let ?s = "Heap (heapNext vm) ?n"
  let ?E1 = "(envs vm)(?s := (envs vm e)\<lparr>e_data := env_bindings vm e ?n\<rparr>)"
  let ?E2 = "if prev \<noteq> NULL then ?E1(prev := (?E1 prev)\<lparr>e_up := ?s\<rparr>) else ?E1"
  let ?E3 = "?E2(e := (?E2 e)\<lparr>e_up := ?s, e_size := -1, e_info := SCM_FALSE\<rparr>)"
  have sv: "saved = ?s" using mv by (auto simp: save_env_move_def Let_def)
  have E: "envs vm' = ?E3" using mv by (auto simp: save_env_move_def Let_def)
  show "conts vm' = conts vm" "stack vm' = stack vm"
    using mv by (auto simp: save_env_move_def Let_def)
  show "saved \<noteq> NULL" "\<not> IN_STACK_P k saved" unfolding sv by simp_all
  obtain ne where ne: "e = Stk ne" using e by (cases e) simp_all
  have es: "e \<noteq> ?s" "e \<noteq> prev" using e pv unfolding ne by auto
  show e1: "e_size (envs vm' e) = -1" and e2: "e_up (envs vm' e) = saved" unfolding E sv by simp_all
  have oth: "envs vm' x = envs vm x" if "IN_STACK_P k x" "x \<noteq> e" for x
  proof -
    have "x \<noteq> ?s" "x \<noteq> prev" using that pv by auto
    then show ?thesis unfolding E using that by simp
  qed
  show "env_stable k vm vm'"
    unfolding env_stable_def
  proof (intro allI impI)
    fix x assume x: "IN_STACK_P k x \<and> e_size (envs vm x) = -1"
    then have "x \<noteq> e" using sz by auto
    then show "envs vm' x = envs vm x" using oth x by blast
  qed
  note c = env_closedD[OF cl]
  show "env_closed k vm'"
  proof (rule env_closedI)
    fix x assume x: "IN_STACK_P k x"
    show "-1 \<le> e_size (envs vm' x)"
      using e1 oth[OF x] c(1)[OF x] by (cases "x = e") simp_all
  next
    fix x assume x: "IN_STACK_P k x" and f: "e_size (envs vm' x) = -1"
    show "\<not> IN_STACK_P k (e_up (envs vm' x))"
    proof (cases "x = e")
      case True then show ?thesis using e2 sv by simp
    next
      case False then show ?thesis using oth[OF x False] c(2)[OF x] f by simp
    qed
  next
    fix x assume x: "x \<noteq> NULL" "\<not> IN_STACK_P k x"
    have xe: "x \<noteq> e" using x e by auto
    consider "x = ?s" "x = prev" | "x = ?s" "x \<noteq> prev" | "x \<noteq> ?s" "x = prev" | "x \<noteq> ?s" "x \<noteq> prev"
      by blast
    then show "e_size (envs vm' x) \<noteq> -1"
    proof cases
      case 1 then show ?thesis unfolding E using xe x sz by simp
    next
      case 2 then show ?thesis unfolding E using xe x sz by simp
    next
      case 3 then show ?thesis unfolding E using xe x c(3)[OF x] by simp
    next
      case 4 then show ?thesis unfolding E using xe x c(3)[OF x] by simp
    qed
  qed
qed

lemma save_env_forwarded_envs:
  assumes pv: "\<not> IN_STACK_P k prev" and cl: "env_closed k vm"
  shows "env_closed k (save_env_forwarded vm e prev)" and "env_stable k vm (save_env_forwarded vm e prev)"
    and "conts (save_env_forwarded vm e prev) = conts vm"
    and "stack (save_env_forwarded vm e prev) = stack vm"
proof -
  let ?v = "save_env_forwarded vm e prev"
  have oth: "envs ?v x = envs vm x" if "IN_STACK_P k x" for x
    using that pv by (auto simp: save_env_forwarded_def)
  have szs: "e_size (envs ?v x) = e_size (envs vm x)" for x
    by (simp add: save_env_forwarded_def)
  show "env_stable k vm ?v" unfolding env_stable_def using oth by simp
  show "conts ?v = conts vm" "stack ?v = stack vm" by (simp_all add: save_env_forwarded_def)
  note c = env_closedD[OF cl]
  show "env_closed k ?v"
    by (rule env_closedI) (use oth szs c in auto)
qed

text \<open>
  What the loop of \<open>save_env\<close> has established when it returns \<open>r\<close>, started on the frame
  \<open>e\<close> of the stack with \<open>head\<close>.
\<close>

definition save_env_post :: "vmconst \<Rightarrow> ScmVM \<Rightarrow> ptr \<Rightarrow> ptr \<Rightarrow> ptr \<times> ScmVM \<Rightarrow> bool" where
  "save_env_post k vm e head r =
     (env_closed k (snd r) \<and> env_stable k vm (snd r) \<and> \<not> IN_STACK_P k (fst r)
      \<and> (head \<noteq> NULL \<longrightarrow> fst r = head)
      \<and> (0 \<le> e_size (envs vm e) \<and> head = NULL \<longrightarrow>
           e_size (envs (snd r) e) = -1 \<and> e_up (envs (snd r) e) = fst r)
      \<and> conts (snd r) = conts vm \<and> stack (snd r) = stack vm)"

lemma save_env_loop_envs:
  assumes "env_closed k vm" and "IN_STACK_P k e" and "\<not> IN_STACK_P k prev" and "\<not> IN_STACK_P k head"
  shows "save_env_post k vm e head (save_env_loop k vm e prev head)"
  using assms
proof (induction k vm e prev head rule: save_env_loop.induct)
  case (1 k vm e prev head)
  show ?case
  proof (cases "e_size (envs vm e) < 0")
    case True
    have r: "save_env_loop k vm e prev head = (head, save_env_forwarded vm e prev)"
      by (subst save_env_loop.simps) (use True in simp)
    show ?thesis unfolding r save_env_post_def
      using save_env_forwarded_envs[OF "1.prems"(3,1), of e] "1.prems"(4) True by simp
  next
    case False
    then have sz: "0 \<le> e_size (envs vm e)" by simp
    obtain vm1 saved nxt where mv: "save_env_move vm e prev = (vm1, saved, nxt)"
      by (cases "save_env_move vm e prev") auto
    note m = save_env_move_envs[OF mv "1.prems"(2,3) sz "1.prems"(1)]
    let ?h = "if head = NULL then saved else head"
    have hn: "?h \<noteq> NULL" "\<not> IN_STACK_P k ?h" using m(3,4) "1.prems"(4) by auto
    show ?thesis
    proof (cases "IN_STACK_P k nxt")
      case True
      have r: "save_env_loop k vm e prev head = save_env_loop k vm1 nxt saved ?h"
        by (subst save_env_loop.simps) (use False mv True in \<open>simp add: Let_def\<close>)
      have ih: "save_env_post k vm1 nxt ?h (save_env_loop k vm1 nxt saved ?h)"
        using 1(1)[OF False mv[symmetric] refl refl True m(1) True m(4) hn(2)] .
      let ?r = "save_env_loop k vm1 nxt saved ?h"
      have i: "env_closed k (snd ?r)" "env_stable k vm1 (snd ?r)" "\<not> IN_STACK_P k (fst ?r)"
        "fst ?r = ?h" "conts (snd ?r) = conts vm1" "stack (snd ?r) = stack vm1"
        using ih hn(1) unfolding save_env_post_def by blast+
      have st: "env_stable k vm (snd ?r)" using env_stable_trans[OF m(2) i(2)] .
      have fe: "envs (snd ?r) e = envs vm1 e"
        using i(2) m(5) "1.prems"(2) unfolding env_stable_def by blast
      show ?thesis unfolding r save_env_post_def
        using i st fe m(5,6,7,8) by auto
    next
      case F2: False
      have r: "save_env_loop k vm e prev head = (?h, vm1)"
        by (subst save_env_loop.simps) (use False mv F2 in \<open>simp add: Let_def\<close>)
      show ?thesis unfolding r save_env_post_def
        using m hn by auto
    qed
  qed
qed

lemma save_env_envs:
  assumes cl: "env_closed k vm"
  shows "env_closed k (snd (save_env k vm e))" and "env_stable k vm (snd (save_env k vm e))"
    and "\<not> IN_STACK_P k e \<Longrightarrow> save_env k vm e = (e, vm)"
    and "IN_STACK_P k e \<Longrightarrow> \<not> IN_STACK_P k (fst (save_env k vm e))"
    and "IN_STACK_P k e \<Longrightarrow> 0 \<le> e_size (envs vm e) \<Longrightarrow>
           e_size (envs (snd (save_env k vm e)) e) = -1
           \<and> e_up (envs (snd (save_env k vm e)) e) = fst (save_env k vm e)"
    and "stack (snd (save_env k vm e)) = stack vm"
proof -
  show n: "\<not> IN_STACK_P k e \<Longrightarrow> save_env k vm e = (e, vm)" by (simp add: save_env_def)
  have p: "save_env_post k vm e NULL (save_env k vm e)" if "IN_STACK_P k e"
    using save_env_loop_envs[OF cl that, of NULL NULL] that by (simp add: save_env_def)
  show "env_closed k (snd (save_env k vm e))"
    using p n cl by (cases "IN_STACK_P k e") (auto simp: save_env_post_def)
  show "env_stable k vm (snd (save_env k vm e))"
    using p n env_stable_refl by (cases "IN_STACK_P k e") (auto simp: save_env_post_def)
  show "IN_STACK_P k e \<Longrightarrow> \<not> IN_STACK_P k (fst (save_env k vm e))"
    using p by (auto simp: save_env_post_def)
  show "IN_STACK_P k e \<Longrightarrow> 0 \<le> e_size (envs vm e) \<Longrightarrow>
           e_size (envs (snd (save_env k vm e)) e) = -1
           \<and> e_up (envs (snd (save_env k vm e)) e) = fst (save_env k vm e)"
    using p by (auto simp: save_env_post_def)
  show "stack (snd (save_env k vm e)) = stack vm"
    using p n by (cases "IN_STACK_P k e") (auto simp: save_env_post_def)
qed


lemma read_words_cong: "stack a = stack b \<Longrightarrow> read_words a p n = read_words b p n"
  by (simp add: read_words_def split: ptr.splits)

text \<open>The update of \<open>c->env\<close> in the first pass.\<close>

lemma save_cont_env_full:
  assumes cl: "env_closed k vm"
  shows "env_closed k (save_cont_env k vm c)"
    and "env_stable k vm (save_cont_env k vm c)"
    and "conts (save_cont_env k vm c)
           = (conts vm)(c := (conts vm c)\<lparr>c_env := fwd_env k (save_cont_env k vm c) (c_env (conts vm c))\<rparr>)"
    and "\<not> IN_STACK_P k (fwd_env k (save_cont_env k vm c) (c_env (conts vm c)))"
    and "IN_STACK_P k (c_env (conts vm c)) \<Longrightarrow> e_size (envs (save_cont_env k vm c) (c_env (conts vm c))) = -1"
    and "stack (save_cont_env k vm c) = stack vm"
    and "heapNext vm \<le> heapNext (save_cont_env k vm c)"
proof -
  let ?ce = "c_env (conts vm c)"
  let ?v = "save_cont_env k vm c"
  note d = env_closedD[OF cl]
  have all: "env_closed k ?v \<and> env_stable k vm ?v
      \<and> conts ?v = (conts vm)(c := (conts vm c)\<lparr>c_env := fwd_env k ?v ?ce\<rparr>)
      \<and> \<not> IN_STACK_P k (fwd_env k ?v ?ce)
      \<and> (IN_STACK_P k ?ce \<longrightarrow> e_size (envs ?v ?ce) = -1)
      \<and> stack ?v = stack vm \<and> heapNext vm \<le> heapNext ?v"
  proof (cases "FORWARDED_ENV_P vm ?ce")
    case True
    then have f: "?ce \<noteq> NULL" "e_size (envs vm ?ce) = -1" by (simp_all add: FORWARDED_ENV_P_def)
    have ins: "IN_STACK_P k ?ce" using d(3)[OF f(1)] f(2) by blast
    have v: "?v = vm\<lparr>conts := (conts vm)(c := (conts vm c)\<lparr>c_env := e_up (envs vm ?ce)\<rparr>)\<rparr>"
      using True by (simp add: save_cont_env_def Let_def)
    have ev: "envs ?v = envs vm" by (subst v) simp
    have fw: "fwd_env k ?v ?ce = e_up (envs vm ?ce)" using ins ev by (simp add: fwd_env_def)
    have "env_closed k ?v" using env_closed_cong[OF ev] cl by simp
    moreover have "env_stable k vm ?v" using ev by (simp add: env_stable_def)
    moreover have "conts ?v = (conts vm)(c := (conts vm c)\<lparr>c_env := fwd_env k ?v ?ce\<rparr>)"
      unfolding fw by (subst v) simp
    moreover have "\<not> IN_STACK_P k (fwd_env k ?v ?ce)" unfolding fw using d(2)[OF ins f(2)] .
    moreover have "e_size (envs ?v ?ce) = -1" using ev f(2) by simp
    moreover have "stack ?v = stack vm" "heapNext vm \<le> heapNext ?v" by (subst v, simp)+
    ultimately show ?thesis by blast
  next
    case F: False
    show ?thesis
    proof (cases "IN_STACK_P k ?ce")
      case True
      obtain e' vm' where s: "save_env k vm ?ce = (e', vm')" by (cases "save_env k vm ?ce") auto
      have nz: "e_size (envs vm ?ce) \<noteq> -1" using F True by (auto simp: FORWARDED_ENV_P_def)
      then have sz: "0 \<le> e_size (envs vm ?ce)" using d(1)[OF True] by simp
      note se = save_env_envs[OF cl, of ?ce]
      have c: "conts vm' = conts vm" using save_env_conts[of k vm ?ce] s by simp
      have v: "?v = vm'\<lparr>conts := (conts vm)(c := (conts vm c)\<lparr>c_env := e'\<rparr>)\<rparr>"
        using F True s c by (simp add: save_cont_env_def Let_def)
      have ev: "envs ?v = envs vm'" by (subst v) simp
      have f: "e_size (envs vm' ?ce) = -1" "e_up (envs vm' ?ce) = e'"
        using se(5)[OF True sz] s by simp_all
      have fw: "fwd_env k ?v ?ce = e'" using True ev f by (simp add: fwd_env_def)
      have "env_closed k ?v" using env_closed_cong[OF ev] se(1) s by simp
      moreover have "env_stable k vm ?v" using env_stable_cong[OF refl ev, of k vm] se(2) s by simp
      moreover have "conts ?v = (conts vm)(c := (conts vm c)\<lparr>c_env := fwd_env k ?v ?ce\<rparr>)"
        unfolding fw by (subst v) simp
      moreover have "\<not> IN_STACK_P k (fwd_env k ?v ?ce)" unfolding fw using se(4)[OF True] s by simp
      moreover have "e_size (envs ?v ?ce) = -1" using ev f by simp
      moreover have "stack ?v = stack vm" using se(6) s by (subst v) simp
      moreover have "heapNext vm \<le> heapNext ?v" using save_env_heapNext[of vm k ?ce] s by (subst v) simp
      ultimately show ?thesis by blast
    next
      case False
      have v: "?v = vm" using F False by (simp add: save_cont_env_def Let_def)
      have fw: "fwd_env k vm ?ce = ?ce" using False by (simp add: fwd_env_def)
      show ?thesis unfolding v fw using cl False env_stable_refl by simp
    qed
  qed
  show "env_closed k ?v" "env_stable k vm ?v"
    "conts ?v = (conts vm)(c := (conts vm c)\<lparr>c_env := fwd_env k ?v ?ce\<rparr>)"
    "\<not> IN_STACK_P k (fwd_env k ?v ?ce)"
    "IN_STACK_P k ?ce \<Longrightarrow> e_size (envs ?v ?ce) = -1"
    "stack ?v = stack vm" "heapNext vm \<le> heapNext ?v"
    using all by blast+
qed

text \<open>
  The copy the first pass makes of a frame \<open>fr\<close> in block \<open>b\<close>, with \<open>prev\<close> and \<open>env\<close> as
  given: the arguments of a Scheme frame are read from the stack and follow the header of the
  copy; a C continuation keeps its \<open>size\<close> data words.
\<close>

definition frame_copy :: "vmconst \<Rightarrow> ScmVM \<Rightarrow> ScmContFrame \<Rightarrow> nat \<Rightarrow> ptr \<Rightarrow> ptr \<Rightarrow> ScmContFrame" where
  "frame_copy k vm fr b pv ev =
     \<lparr>c_prev = pv, c_env = ev,
      c_argp = (if c_argp fr = NULL then NULL else Heap b (CONT_FRAME_SIZE k)),
      c_size = c_size fr, c_pc = c_pc fr, c_base = c_base fr,
      c_data = (if c_argp fr = NULL then take (nat (c_size fr)) (c_data fr)
                else read_words vm (c_argp fr) (nat (c_size fr)))\<rparr>"

lemma frame_copy_cong:
  "stack vm' = stack vm \<Longrightarrow> frame_copy k vm' fr b pv ev = frame_copy k vm fr b pv ev"
  using read_words_cong[of vm' vm] by (simp add: frame_copy_def)

lemma frame_copy_prev: "(frame_copy k vm fr b pv ev)\<lparr>c_prev := q\<rparr> = frame_copy k vm fr b q ev"
  by (simp add: frame_copy_def)

text \<open>One iteration of the first pass on the in-stack frame at offset \<open>n\<close>.\<close>

lemma save_cont_move_step:
  assumes mv: "save_cont_move k vm (Stk n) pv = (vm', csave, tmp)"
    and pv: "pv = NULL \<or> (\<exists>b. pv = Heap b 0 \<and> b < heapNext vm)"
    and cl: "env_closed k vm"
  shows "csave = Heap (heapNext vm) 0"
    and "tmp = c_prev (conts vm (Stk n))"
    and "c_size (conts vm' (Stk n)) = -1"
    and "c_prev (conts vm' (Stk n)) = csave"
    and "\<And>m. m \<noteq> n \<Longrightarrow> conts vm' (Stk m) = conts vm (Stk m)"
    and "conts vm' csave = frame_copy k vm (conts vm (Stk n)) (heapNext vm) (c_prev (conts vm (Stk n)))
                             (fwd_env k vm' (c_env (conts vm (Stk n))))"
    and "pv \<noteq> NULL \<Longrightarrow> conts vm' pv = (conts vm pv)\<lparr>c_prev := csave\<rparr>"
    and "\<And>p. p \<noteq> Stk n \<Longrightarrow> p \<noteq> csave \<Longrightarrow> p \<noteq> pv \<Longrightarrow> conts vm' p = conts vm p"
    and "heapNext vm < heapNext vm'"
    and "env_closed k vm'" and "env_stable k vm vm'" and "stack vm' = stack vm"
    and "\<not> IN_STACK_P k (fwd_env k vm' (c_env (conts vm (Stk n))))"
    and "IN_STACK_P k (c_env (conts vm (Stk n))) \<Longrightarrow> e_size (envs vm' (c_env (conts vm (Stk n)))) = -1"
proof -
  let ?v0 = "vm\<lparr>heapNext := heapNext vm + 1\<rparr>"
  let ?v1 = "save_cont_env k ?v0 (Stk n)"
  let ?ce = "c_env (conts vm (Stk n))"
  have cl0: "env_closed k ?v0" using cl by (simp add: env_closed_def)
  note sc = save_cont_env_full[OF cl0, of "Stk n"]
  have e: "conts ?v1 = (conts vm)(Stk n := (conts vm (Stk n))\<lparr>c_env := fwd_env k ?v1 ?ce\<rparr>)"
    using sc(3) by simp
  have hn: "heapNext vm + 1 \<le> heapNext ?v1" using sc(7) by simp
  let ?cs = "Heap (heapNext vm) 0"
  have pvn: "pv \<noteq> Stk n" "pv \<noteq> ?cs" using pv by auto
  let ?fr = "conts ?v1 (Stk n)"
  let ?copy = "if c_argp ?fr \<noteq> NULL
                  then ?fr\<lparr>c_data := read_words ?v1 (c_argp ?fr) (nat (c_size ?fr)),
                          c_argp := Heap (heapNext vm) (CONT_FRAME_SIZE k)\<rparr>
                  else ?fr\<lparr>c_data := take (nat (c_size ?fr)) (c_data ?fr)\<rparr>"
  let ?C2 = "(conts ?v1)(?cs := ?copy)"
  let ?C3 = "if pv \<noteq> NULL then ?C2(pv := (?C2 pv)\<lparr>c_prev := ?cs\<rparr>) else ?C2"
  let ?C4 = "?C3(Stk n := (?C3 (Stk n))\<lparr>c_prev := ?cs, c_size := -1\<rparr>)"
  have cs: "csave = ?cs" using mv by (auto simp: save_cont_move_def Let_def)
  have tmp0: "tmp = c_prev (?C3 (Stk n))" using mv by (auto simp: save_cont_move_def Let_def)
  have c': "conts vm' = ?C4" using mv by (auto simp: save_cont_move_def Let_def)
  have hn': "heapNext vm' = heapNext ?v1" using mv by (auto simp: save_cont_move_def Let_def)
  have ev': "envs vm' = envs ?v1" using mv by (auto simp: save_cont_move_def Let_def)
  have st': "stack vm' = stack ?v1" using mv by (auto simp: save_cont_move_def Let_def)
  have fwe: "fwd_env k vm' ?ce = fwd_env k ?v1 ?ce" using ev' by (simp add: fwd_env_def)
  have C3n: "?C3 (Stk n) = ?fr" using pvn by simp
  have fr: "?fr = (conts vm (Stk n))\<lparr>c_env := fwd_env k ?v1 ?ce\<rparr>" unfolding e by simp
  have frf: "c_prev ?fr = c_prev (conts vm (Stk n))" unfolding fr by simp
  show "csave = Heap (heapNext vm) 0" by (rule cs)
  show "tmp = c_prev (conts vm (Stk n))" unfolding tmp0 C3n by (rule frf)
  have n4: "conts vm' (Stk n) = ?fr\<lparr>c_prev := ?cs, c_size := -1\<rparr>"
    unfolding c' using C3n by simp
  show "c_size (conts vm' (Stk n)) = -1" unfolding n4 by simp
  show "c_prev (conts vm' (Stk n)) = csave" unfolding n4 cs by simp
  have oth: "conts vm' p = conts vm p" if "p \<noteq> Stk n" "p \<noteq> ?cs" "p \<noteq> pv" for p
    unfolding c' e using that by simp
  show "\<And>m. m \<noteq> n \<Longrightarrow> conts vm' (Stk m) = conts vm (Stk m)"
    using oth pv by auto
  have c4cs: "conts vm' ?cs = ?copy" unfolding c' using pvn by simp
  have rw: "read_words ?v1 = read_words vm"
    using read_words_cong[of ?v1 vm] sc(6) by (simp add: fun_eq_iff)
  have "?copy = frame_copy k vm (conts vm (Stk n)) (heapNext vm) (c_prev (conts vm (Stk n)))
                             (fwd_env k ?v1 ?ce)"
    unfolding fr rw by (simp add: frame_copy_def)
  then show "conts vm' csave = frame_copy k vm (conts vm (Stk n)) (heapNext vm) (c_prev (conts vm (Stk n)))
                             (fwd_env k vm' ?ce)"
    unfolding cs c4cs fwe .
  show "pv \<noteq> NULL \<Longrightarrow> conts vm' pv = (conts vm pv)\<lparr>c_prev := csave\<rparr>"
    unfolding c' cs e using pvn by simp
  show "\<And>p. p \<noteq> Stk n \<Longrightarrow> p \<noteq> csave \<Longrightarrow> p \<noteq> pv \<Longrightarrow> conts vm' p = conts vm p"
    using oth cs by simp
  show "heapNext vm < heapNext vm'" using hn hn' by simp
  show "env_closed k vm'" using env_closed_cong[OF ev'] sc(1) by simp
  show "env_stable k vm vm'" using env_stable_cong[OF refl ev', of k ?v0] sc(2) by (simp add: env_stable_def)
  show "stack vm' = stack vm" using st' sc(6) by simp
  show "\<not> IN_STACK_P k (fwd_env k vm' ?ce)" unfolding fwe using sc(4) by simp
  show "IN_STACK_P k ?ce \<Longrightarrow> e_size (envs vm' ?ce) = -1" unfolding ev' using sc(5) by simp
qed


lemma cont_chain_cong:
  "(\<And>m. m \<in> set ns \<Longrightarrow> conts vm' (Stk m) = conts vm (Stk m)) \<Longrightarrow>
   cont_chain k vm' c ns = cont_chain k vm c ns"
  by (induction ns arbitrary: c) auto

lemma cont_chain_unique:
  "cont_chain k vm c ns \<Longrightarrow> cont_chain k vm c ms \<Longrightarrow> ns = ms"
proof (induction ns arbitrary: c ms)
  case Nil
  then show ?case by (cases ms) auto
next
  case (Cons n ns)
  then show ?case by (cases ms) auto
qed

lemma cont_chain_suffix:
  "cont_chain k vm c ns \<Longrightarrow> m \<in> set ns \<Longrightarrow>
   \<exists>ms. cont_chain k vm (Stk m) (m # ms) \<and> length ms < length ns"
proof (induction ns arbitrary: c)
  case Nil
  then show ?case by simp
next
  case (Cons n ns)
  show ?case
  proof (cases "m = n")
    case True
    then show ?thesis using Cons.prems(1) by auto
  next
    case False
    then have "m \<in> set ns" using Cons.prems(2) by simp
    moreover have "cont_chain k vm (c_prev (conts vm (Stk n))) ns" using Cons.prems(1) by simp
    ultimately obtain ms where "cont_chain k vm (Stk m) (m # ms)" "length ms < length ns"
      using Cons.IH by blast
    then show ?thesis by (intro exI[of _ ms]) simp
  qed
qed

lemma cont_chain_distinct: "cont_chain k vm c ns \<Longrightarrow> distinct ns"
proof (induction ns arbitrary: c)
  case Nil
  then show ?case by simp
next
  case (Cons n ns)
  have tl: "cont_chain k vm (c_prev (conts vm (Stk n))) ns" using Cons.prems by simp
  have "n \<notin> set ns"
  proof
    assume "n \<in> set ns"
    then obtain ms where ms: "cont_chain k vm (Stk n) (n # ms)" "length ms < length ns"
      using cont_chain_suffix[OF tl] by blast
    have "cont_chain k vm (Stk n) (n # ns)" using Cons.prems by simp
    then have "n # ns = n # ms" using ms(1) cont_chain_unique by blast
    then show False using ms(2) by simp
  qed
  then show ?case using Cons.IH[OF tl] by simp
qed

text \<open>
  The state of the first pass before an iteration: \<open>pv\<close> is the copy made by the previous
  iteration (or NULL), the only frame outside the stack that may still link into it.
  \<open>copy_ok\<close> says that the frame at offset \<open>m\<close> has been forwarded to a copy of what it was
  in \<open>vm\<close>, with \<open>prev\<close> and \<open>env\<close> forwarded; \<open>pass1_post\<close> is what the pass has established
  when it returns.
\<close>

definition pass1_pre :: "vmconst \<Rightarrow> ScmVM \<Rightarrow> ptr \<Rightarrow> bool" where
  "pass1_pre k vm pv =
     ((pv = NULL \<or> (\<exists>b. pv = Heap b 0 \<and> b < heapNext vm))
      \<and> (\<forall>p. p \<noteq> NULL \<and> \<not> IN_STACK_P k p \<and> p \<noteq> pv \<longrightarrow> \<not> IN_STACK_P k (c_prev (conts vm p)))
      \<and> (\<forall>p. p \<noteq> NULL \<and> \<not> IN_STACK_P k p \<longrightarrow> c_size (conts vm p) \<noteq> -1)
      \<and> env_closed k vm)"

definition copy_ok :: "vmconst \<Rightarrow> ScmVM \<Rightarrow> ScmVM \<Rightarrow> nat \<Rightarrow> bool" where
  "copy_ok k vm vm' m =
     ((\<exists>b. c_prev (conts vm' (Stk m)) = Heap b 0 \<and> heapNext vm \<le> b
           \<and> conts vm' (Heap b 0)
               = frame_copy k vm (conts vm (Stk m)) b (fwd_cont k vm' (c_prev (conts vm (Stk m))))
                   (fwd_env k vm' (c_env (conts vm (Stk m)))))
      \<and> \<not> IN_STACK_P k (fwd_env k vm' (c_env (conts vm (Stk m)))))"

definition pass1_post :: "vmconst \<Rightarrow> ScmVM \<Rightarrow> ScmVM \<Rightarrow> ptr \<Rightarrow> nat list \<Rightarrow> bool" where
  "pass1_post k vm vm' pv ns =
     ((\<forall>p. p \<noteq> NULL \<and> \<not> IN_STACK_P k p \<longrightarrow>
           c_size (conts vm' p) \<noteq> -1 \<and> \<not> IN_STACK_P k (c_prev (conts vm' p)))
      \<and> (\<forall>m\<in>set ns. c_size (conts vm' (Stk m)) = -1 \<and> copy_ok k vm vm' m)
      \<and> (\<forall>m. m \<notin> set ns \<longrightarrow> conts vm' (Stk m) = conts vm (Stk m))
      \<and> (pv \<noteq> NULL \<longrightarrow> conts vm' pv = (conts vm pv)\<lparr>c_prev := c_prev (conts vm' (Stk (hd ns)))\<rparr>)
      \<and> (\<forall>b i. b < heapNext vm \<and> Heap b i \<noteq> pv \<longrightarrow> conts vm' (Heap b i) = conts vm (Heap b i))
      \<and> heapNext vm \<le> heapNext vm'
      \<and> env_closed k vm' \<and> env_stable k vm vm' \<and> stack vm' = stack vm
      \<and> distinct (map (\<lambda>m. c_prev (conts vm' (Stk m))) ns))"

lemma pass1_postD:
  assumes "pass1_post k vm vm' pv ns"
  shows "\<And>p. p \<noteq> NULL \<Longrightarrow> \<not> IN_STACK_P k p \<Longrightarrow>
           c_size (conts vm' p) \<noteq> -1 \<and> \<not> IN_STACK_P k (c_prev (conts vm' p))"
    and "\<And>m. m \<in> set ns \<Longrightarrow> c_size (conts vm' (Stk m)) = -1 \<and> copy_ok k vm vm' m"
    and "\<And>m. m \<notin> set ns \<Longrightarrow> conts vm' (Stk m) = conts vm (Stk m)"
    and "pv \<noteq> NULL \<Longrightarrow> conts vm' pv = (conts vm pv)\<lparr>c_prev := c_prev (conts vm' (Stk (hd ns)))\<rparr>"
    and "\<And>b i. b < heapNext vm \<Longrightarrow> Heap b i \<noteq> pv \<Longrightarrow> conts vm' (Heap b i) = conts vm (Heap b i)"
    and "heapNext vm \<le> heapNext vm'"
    and "env_closed k vm'" and "env_stable k vm vm'" and "stack vm' = stack vm"
    and "distinct (map (\<lambda>m. c_prev (conts vm' (Stk m))) ns)"
  using assms unfolding pass1_post_def by blast+

lemma pass1_postI:
  assumes "\<And>p. p \<noteq> NULL \<Longrightarrow> \<not> IN_STACK_P k p \<Longrightarrow>
           c_size (conts vm' p) \<noteq> -1 \<and> \<not> IN_STACK_P k (c_prev (conts vm' p))"
    and "\<And>m. m \<in> set ns \<Longrightarrow> c_size (conts vm' (Stk m)) = -1 \<and> copy_ok k vm vm' m"
    and "\<And>m. m \<notin> set ns \<Longrightarrow> conts vm' (Stk m) = conts vm (Stk m)"
    and "pv \<noteq> NULL \<longrightarrow> conts vm' pv = (conts vm pv)\<lparr>c_prev := c_prev (conts vm' (Stk (hd ns)))\<rparr>"
    and "\<And>b i. b < heapNext vm \<Longrightarrow> Heap b i \<noteq> pv \<Longrightarrow> conts vm' (Heap b i) = conts vm (Heap b i)"
    and "heapNext vm \<le> heapNext vm'"
    and "env_closed k vm'" and "env_stable k vm vm'" and "stack vm' = stack vm"
    and "distinct (map (\<lambda>m. c_prev (conts vm' (Stk m))) ns)"
  shows "pass1_post k vm vm' pv ns"
  unfolding pass1_post_def using assms by blast

lemma pass1_chain:
  assumes "cont_chain k vm (Stk n) (n # ns)" and "distinct (n # ns)" and "pass1_pre k vm pv"
  shows "pass1_post k vm (save_cont_pass1 k vm (Stk n) pv) pv (n # ns)"
  using assms
proof (induction ns arbitrary: vm n pv)
  case Nil
  obtain vm1 csave tmp where mv: "save_cont_move k vm (Stk n) pv = (vm1, csave, tmp)"
    by (cases "save_cont_move k vm (Stk n) pv") auto
  have pv: "pv = NULL \<or> (\<exists>b. pv = Heap b 0 \<and> b < heapNext vm)"
    and cl: "\<And>p. p \<noteq> NULL \<Longrightarrow> \<not> IN_STACK_P k p \<Longrightarrow> p \<noteq> pv \<Longrightarrow> \<not> IN_STACK_P k (c_prev (conts vm p))"
    and sz: "\<And>p. p \<noteq> NULL \<Longrightarrow> \<not> IN_STACK_P k p \<Longrightarrow> c_size (conts vm p) \<noteq> -1"
    and ec: "env_closed k vm"
    using Nil(3) by (auto simp: pass1_pre_def)
  note st = save_cont_move_step[OF mv pv ec]
  let ?fr = "conts vm (Stk n)"
  have ch: "n < SCM_VM_STACK_SIZE k" "0 \<le> c_size ?fr" "\<not> IN_STACK_P k (c_prev ?fr)"
    using Nil(1) by simp_all
  have res: "save_cont_pass1 k vm (Stk n) pv = vm1"
    by (subst save_cont_pass1.simps) (use mv st(2) ch(3) in simp)
  have csz: "c_size (conts vm1 csave) = c_size ?fr" "c_prev (conts vm1 csave) = c_prev ?fr"
    unfolding st(6) by (simp_all add: frame_copy_def)
  have q1: "c_size (conts vm1 p) \<noteq> -1 \<and> \<not> IN_STACK_P k (c_prev (conts vm1 p))"
    if p: "p \<noteq> NULL" "\<not> IN_STACK_P k p" for p
  proof -
    have pn: "p \<noteq> Stk n" using p ch by auto
    consider "p = csave" | "p \<noteq> csave" "p = pv" | "p \<noteq> csave" "p \<noteq> pv" by blast
    then show ?thesis
    proof cases
      case 1 then show ?thesis using csz ch by simp
    next
      case 2
      then have "conts vm1 p = (conts vm p)\<lparr>c_prev := csave\<rparr>" using st(7) p by simp
      then show ?thesis using sz[OF p] st(1) by simp
    next
      case 3
      then have "conts vm1 p = conts vm p" using st(8) pn by simp
      then show ?thesis using sz[OF p] cl[OF p] 3 by simp
    qed
  qed
  have fc: "fwd_cont k vm1 (c_prev ?fr) = c_prev ?fr" using ch(3) by (simp add: fwd_cont_def)
  have ck: "copy_ok k vm vm1 n"
    unfolding copy_ok_def fc
    using st(1,4,6,13) by simp
  have q2': "c_size (conts vm1 (Stk m)) = -1 \<and> copy_ok k vm vm1 m"
    if "m \<in> set [n]" for m using ck st(3) that by simp
  have q3': "conts vm1 (Stk m) = conts vm (Stk m)" if "m \<notin> set [n]" for m
    using st(5)[of m] that by simp
  have q4': "pv \<noteq> NULL \<longrightarrow> conts vm1 pv = (conts vm pv)\<lparr>c_prev := c_prev (conts vm1 (Stk (hd [n])))\<rparr>"
    using st(7,4) by simp
  have q5: "conts vm1 (Heap b i) = conts vm (Heap b i)" if "b < heapNext vm" "Heap b i \<noteq> pv" for b i
    using st(8)[of "Heap b i"] st(1) that by simp
  have q6': "heapNext vm \<le> heapNext vm1" using st(9) by simp
  have q9: "distinct (map (\<lambda>m. c_prev (conts vm1 (Stk m))) [n])" by simp
  show ?case unfolding res
    by (rule pass1_postI[OF q1 q2' q3' q4' q5 q6' st(10,11,12) q9])
next
  case (Cons n2 rest)
  obtain vm1 csave tmp where mv: "save_cont_move k vm (Stk n) pv = (vm1, csave, tmp)"
    by (cases "save_cont_move k vm (Stk n) pv") auto
  have pv: "pv = NULL \<or> (\<exists>b. pv = Heap b 0 \<and> b < heapNext vm)"
    and cl: "\<And>p. p \<noteq> NULL \<Longrightarrow> \<not> IN_STACK_P k p \<Longrightarrow> p \<noteq> pv \<Longrightarrow> \<not> IN_STACK_P k (c_prev (conts vm p))"
    and sz: "\<And>p. p \<noteq> NULL \<Longrightarrow> \<not> IN_STACK_P k p \<Longrightarrow> c_size (conts vm p) \<noteq> -1"
    and ec: "env_closed k vm"
    using Cons.prems(3) by (auto simp: pass1_pre_def)
  note st = save_cont_move_step[OF mv pv ec]
  let ?fr = "conts vm (Stk n)"
  let ?ce = "c_env ?fr"
  have ch: "n < SCM_VM_STACK_SIZE k" "0 \<le> c_size ?fr"
    "c_prev ?fr = Stk n2" "n2 < SCM_VM_STACK_SIZE k"
    "cont_chain k vm (Stk n2) (n2 # rest)"
    using Cons.prems(1) by auto
  have dn: "n \<notin> set (n2 # rest)" "distinct (n2 # rest)" using Cons.prems(2) by auto
  have res: "save_cont_pass1 k vm (Stk n) pv = save_cont_pass1 k vm1 (Stk n2) csave"
    by (subst save_cont_pass1.simps) (use mv st(2) ch(3,4) in simp)
  let ?vm' = "save_cont_pass1 k vm1 (Stk n2) csave"
  have same1: "conts vm1 (Stk m) = conts vm (Stk m)" if "m \<in> set (n2 # rest)" for m
  proof -
    have "m \<noteq> n" using that dn(1) by auto
    then show ?thesis by (rule st(5))
  qed
  have ch1: "cont_chain k vm1 (Stk n2) (n2 # rest)"
    using cont_chain_cong[of "n2 # rest" vm1 vm k "Stk n2", OF same1] ch(5) by simp
  have csz: "c_size (conts vm1 csave) = c_size ?fr"
    unfolding st(6) by (simp add: frame_copy_def)
  have pre1: "pass1_pre k vm1 csave"
    unfolding pass1_pre_def
  proof (intro conjI allI impI)
    show "csave = NULL \<or> (\<exists>b. csave = Heap b 0 \<and> b < heapNext vm1)"
      using st(1,9) by simp
  next
    fix p assume p: "p \<noteq> NULL \<and> \<not> IN_STACK_P k p \<and> p \<noteq> csave"
    then have pn: "p \<noteq> Stk n" using ch by auto
    show "\<not> IN_STACK_P k (c_prev (conts vm1 p))"
    proof (cases "p = pv")
      case True
      then have "conts vm1 p = (conts vm p)\<lparr>c_prev := csave\<rparr>" using st(7) p by simp
      then show ?thesis using st(1) by simp
    next
      case False
      then have "conts vm1 p = conts vm p" using st(8) pn p by simp
      then show ?thesis using cl[of p] p False by simp
    qed
  next
    fix p assume p: "p \<noteq> NULL \<and> \<not> IN_STACK_P k p"
    then have pn: "p \<noteq> Stk n" using ch by auto
    consider "p = csave" | "p \<noteq> csave" "p = pv" | "p \<noteq> csave" "p \<noteq> pv" by blast
    then show "c_size (conts vm1 p) \<noteq> -1"
    proof cases
      case 1 then show ?thesis using csz ch by simp
    next
      case 2
      then have "conts vm1 p = (conts vm p)\<lparr>c_prev := csave\<rparr>" using st(7) p by simp
      then show ?thesis using sz[of p] p by simp
    next
      case 3
      then have "conts vm1 p = conts vm p" using st(8) pn by simp
      then show ?thesis using sz[of p] p by simp
    qed
  next
    show "env_closed k vm1" by (rule st(10))
  qed
  have ih: "pass1_post k vm1 ?vm' csave (n2 # rest)"
    by (rule Cons.IH[OF ch1 dn(2) pre1])
  note i1 = pass1_postD(1)[OF ih] and i2 = pass1_postD(2)[OF ih] and i3 = pass1_postD(3)[OF ih]
    and i4' = pass1_postD(4)[OF ih] and i5 = pass1_postD(5)[OF ih] and i6 = pass1_postD(6)[OF ih]
    and i7 = pass1_postD(7)[OF ih] and i8 = pass1_postD(8)[OF ih] and i9 = pass1_postD(9)[OF ih]
    and i10 = pass1_postD(10)[OF ih]
  have csn: "csave \<noteq> NULL" using st(1) by simp
  have i4: "conts ?vm' csave = (conts vm1 csave)\<lparr>c_prev := c_prev (conts ?vm' (Stk n2))\<rparr>"
    using i4' csn by simp
  have n': "conts ?vm' (Stk n) = conts vm1 (Stk n)" using i3 dn(1) by blast
  have fe: "fwd_env k ?vm' ?ce = fwd_env k vm1 ?ce"
    by (rule fwd_env_stable[OF i8]) (rule st(14))
  have fcn: "fwd_cont k ?vm' (c_prev ?fr) = c_prev (conts ?vm' (Stk n2))"
    unfolding ch(3) using ch(4) by (simp add: fwd_cont_def)
  have q2n: "c_size (conts ?vm' (Stk n)) = -1 \<and> copy_ok k vm ?vm' n"
  proof -
    have a: "c_prev (conts ?vm' (Stk n)) = Heap (heapNext vm) 0" "c_size (conts ?vm' (Stk n)) = -1"
      unfolding n' using st(1,3,4) by simp_all
    have "conts ?vm' (Heap (heapNext vm) 0)
            = (frame_copy k vm ?fr (heapNext vm) (c_prev ?fr) (fwd_env k vm1 ?ce))\<lparr>c_prev := c_prev (conts ?vm' (Stk n2))\<rparr>"
      using i4 st(6) st(1) by simp
    then have b: "conts ?vm' (Heap (heapNext vm) 0)
            = frame_copy k vm ?fr (heapNext vm) (fwd_cont k ?vm' (c_prev ?fr)) (fwd_env k ?vm' ?ce)"
      unfolding frame_copy_prev fe fcn .
    have c: "\<not> IN_STACK_P k (fwd_env k ?vm' ?ce)" unfolding fe by (rule st(13))
    have "copy_ok k vm ?vm' n"
      unfolding copy_ok_def using a(1) b c by (intro conjI exI[of _ "heapNext vm"]) simp_all
    then show ?thesis using a(2) by simp
  qed
  have q2r: "c_size (conts ?vm' (Stk m)) = -1 \<and> copy_ok k vm ?vm' m"
    if m: "m \<in> set (n2 # rest)" for m
  proof -
    have e: "conts vm1 (Stk m) = conts vm (Stk m)" by (rule same1[OF m])
    have "copy_ok k vm1 ?vm' m" using i2[OF m] by simp
    then obtain b where b: "c_prev (conts ?vm' (Stk m)) = Heap b 0" "heapNext vm1 \<le> b"
      "conts ?vm' (Heap b 0)
               = frame_copy k vm1 (conts vm1 (Stk m)) b (fwd_cont k ?vm' (c_prev (conts vm1 (Stk m))))
                   (fwd_env k ?vm' (c_env (conts vm1 (Stk m))))"
      and ns: "\<not> IN_STACK_P k (fwd_env k ?vm' (c_env (conts vm1 (Stk m))))"
      unfolding copy_ok_def by blast
    have hb: "heapNext vm \<le> b" using b(2) st(9) by simp
    have b3: "conts ?vm' (Heap b 0)
               = frame_copy k vm (conts vm (Stk m)) b (fwd_cont k ?vm' (c_prev (conts vm (Stk m))))
                   (fwd_env k ?vm' (c_env (conts vm (Stk m))))"
      using b(3) unfolding e frame_copy_cong[OF st(12)] .
    have "copy_ok k vm ?vm' m"
      unfolding copy_ok_def using b(1) hb b3 ns[unfolded e] by (intro conjI exI[of _ b]) simp_all
    then show ?thesis using i2[OF m] by simp
  qed
  have q2: "c_size (conts ?vm' (Stk m)) = -1 \<and> copy_ok k vm ?vm' m"
    if "m \<in> set (n # n2 # rest)" for m
  proof (cases "m = n")
    case True then show ?thesis using q2n by simp
  next
    case False then show ?thesis using q2r[of m] that by simp
  qed
  have q3: "conts ?vm' (Stk m) = conts vm (Stk m)" if "m \<notin> set (n # n2 # rest)" for m
    using i3[of m] st(5)[of m] that by simp
  have q4: "pv \<noteq> NULL \<longrightarrow> conts ?vm' pv = (conts vm pv)\<lparr>c_prev := c_prev (conts ?vm' (Stk (hd (n # n2 # rest))))\<rparr>"
  proof
    assume pn: "pv \<noteq> NULL"
    then obtain b where b: "pv = Heap b 0" "b < heapNext vm" using pv by blast
    have "pv \<noteq> csave" using b st(1) by simp
    then have "conts ?vm' pv = conts vm1 pv" using i5[of b 0] b st(9) by simp
    also have "\<dots> = (conts vm pv)\<lparr>c_prev := csave\<rparr>" using st(7) pn by simp
    finally show "conts ?vm' pv = (conts vm pv)\<lparr>c_prev := c_prev (conts ?vm' (Stk (hd (n # n2 # rest))))\<rparr>"
      using st(4) n' by simp
  qed
  have q5: "conts ?vm' (Heap b i) = conts vm (Heap b i)" if "b < heapNext vm" "Heap b i \<noteq> pv" for b i
  proof -
    have "Heap b i \<noteq> csave" using that st(1) by simp
    then have "conts ?vm' (Heap b i) = conts vm1 (Heap b i)" using i5[of b i] that st(9) by simp
    then show ?thesis using st(8)[of "Heap b i"] that st(1) by simp
  qed
  have q6: "heapNext vm \<le> heapNext ?vm'" using st(9) i6 by simp
  have q8: "env_stable k vm ?vm'" by (rule env_stable_trans[OF st(11) i8])
  have q9: "stack ?vm' = stack vm" using i9 st(12) by simp
  have q10: "distinct (map (\<lambda>m. c_prev (conts ?vm' (Stk m))) (n # n2 # rest))"
  proof -
    have "c_prev (conts ?vm' (Stk n)) \<noteq> c_prev (conts ?vm' (Stk m))" if m: "m \<in> set (n2 # rest)" for m
    proof -
      have "copy_ok k vm1 ?vm' m" using i2[OF m] by simp
      then obtain b where "c_prev (conts ?vm' (Stk m)) = Heap b 0" "heapNext vm1 \<le> b"
        unfolding copy_ok_def by blast
      moreover have "c_prev (conts ?vm' (Stk n)) = Heap (heapNext vm) 0" unfolding n' using st(1,4) by simp
      ultimately show ?thesis using st(9) by simp
    qed
    then have "c_prev (conts ?vm' (Stk n)) \<notin> set (map (\<lambda>m. c_prev (conts ?vm' (Stk m))) (n2 # rest))"
      by auto
    then show ?thesis using i10 by simp
  qed
  show ?case unfolding res
    by (rule pass1_postI[OF i1 q2 q3 q4 q5 q6 i7 q8 q9 q10])
qed


lemma save_cont_cstk_loop_skip:
  "a \<notin> set L \<Longrightarrow> cs_cont (save_cont_cstk_loop v L) a = cs_cont v a"
  by (induction L arbitrary: v) auto

lemma save_cont_ep_loop_skip:
  "a \<notin> set L \<Longrightarrow> eps (save_cont_ep_loop v L) a = eps v a"
  by (induction L arbitrary: v) auto

lemma save_cont_cstk_loop_envs: "envs (save_cont_cstk_loop v L) = envs v"
  by (induction L arbitrary: v) auto

lemma save_cont_ep_loop_envs: "envs (save_cont_ep_loop v L) = envs v"
  by (induction L arbitrary: v) auto

lemma save_cont_cstk_loop_val:
  assumes "conts v = C" and "FORWARDED_CONT_P v p" and "\<not> FORWARDED_CONT_P v (c_prev (C p))"
    and "(a \<in> set L \<and> cs_cont v a = p) \<or> cs_cont v a = c_prev (C p)"
  shows "cs_cont (save_cont_cstk_loop v L) a = c_prev (C p)"
  using assms
proof (induction L arbitrary: v)
  case Nil
  then show ?case by simp
next
  case (Cons x L)
  let ?v' = "if FORWARDED_CONT_P v (cs_cont v x)
        then v\<lparr>cs_cont := (cs_cont v)(x := c_prev (conts v (cs_cont v x)))\<rparr> else v"
  have c: "conts ?v' = C" using Cons.prems(1) by simp
  have f: "FORWARDED_CONT_P ?v' p" "\<not> FORWARDED_CONT_P ?v' (c_prev (C p))"
    using Cons.prems(2,3) by (simp_all add: FORWARDED_CONT_P_def)
  have d: "(a \<in> set L \<and> cs_cont ?v' a = p) \<or> cs_cont ?v' a = c_prev (C p)"
    using Cons.prems by auto
  show ?case using Cons.IH[OF c f d] by simp
qed

lemma save_cont_ep_loop_val:
  assumes "conts v = C" and "FORWARDED_CONT_P v p" and "\<not> FORWARDED_CONT_P v (c_prev (C p))"
    and "(a \<in> set L \<and> ep_cont (eps v a) = p) \<or> ep_cont (eps v a) = c_prev (C p)"
  shows "ep_cont (eps (save_cont_ep_loop v L) a) = c_prev (C p)"
  using assms
proof (induction L arbitrary: v)
  case Nil
  then show ?case by simp
next
  case (Cons x L)
  let ?v' = "if FORWARDED_CONT_P v (ep_cont (eps v x))
        then v\<lparr>eps := (eps v)(x := (eps v x)\<lparr>ep_cont := c_prev (conts v (ep_cont (eps v x)))\<rparr>)\<rparr> else v"
  have c: "conts ?v' = C" using Cons.prems(1) by simp
  have f: "FORWARDED_CONT_P ?v' p" "\<not> FORWARDED_CONT_P ?v' (c_prev (C p))"
    using Cons.prems(2,3) by (simp_all add: FORWARDED_CONT_P_def)
  have d: "(a \<in> set L \<and> ep_cont (eps ?v' a) = p) \<or> ep_cont (eps ?v' a) = c_prev (C p)"
    using Cons.prems by auto
  show ?case using Cons.IH[OF c f d] by simp
qed

lemma heap_closed_reach:
  assumes "heap_closed k v" and "\<not> IN_STACK_P k c" and "(c, p) \<in> cont_reach v"
  shows "\<not> IN_STACK_P k p"
proof -
  have "(c, p) \<in> {(p, q). p \<noteq> NULL \<and> q = c_prev (conts v p)}\<^sup>*"
    using assms(3) by (simp add: cont_reach_def)
  then show ?thesis
  proof (induction rule: rtrancl_induct)
    case base
    then show ?case using assms(2) .
  next
    case (step y z)
    then show ?case using assms(1) by (auto simp: heap_closed_def)
  qed
qed

text \<open>
  What \<open>save_stack\<close> establishes for the frames \<open>ns\<close> of the in-stack chain. \<open>vs\<close> is the
  state that \<open>save_cont\<close> leaves, in which the in-stack frames hold their forwarding pointers,
  and \<open>vt\<close> the state in which the copies and the holders are read. \<open>heap_copy\<close>: the
  forwarding pointer of the frame at offset \<open>n\<close> addresses a block allocated by the call,
  and the frame in that block has the \<open>pc\<close>, \<open>size\<close> and \<open>base\<close> of the original, its
  arguments or data words, \<open>argp\<close> at the words after its own header, and \<open>prev\<close> and \<open>env\<close>
  forwarded; the environment of the copy lies outside the stack. \<open>holders_forwarded\<close>: each
  holder that addressed a frame of the chain addresses its copy.
\<close>

definition heap_copy :: "vmconst \<Rightarrow> ScmVM \<Rightarrow> ScmVM \<Rightarrow> ScmVM \<Rightarrow> nat \<Rightarrow> bool" where
  "heap_copy k vm vs vt n =
     ((\<exists>b. c_prev (conts vs (Stk n)) = Heap b 0 \<and> heapNext vm \<le> b
           \<and> conts vt (Heap b 0)
               = frame_copy k vm (conts vm (Stk n)) b (fwd_cont k vs (c_prev (conts vm (Stk n))))
                   (fwd_env k vs (c_env (conts vm (Stk n)))))
      \<and> \<not> IN_STACK_P k (fwd_env k vs (c_env (conts vm (Stk n)))))"

definition holders_forwarded :: "ScmVM \<Rightarrow> ScmVM \<Rightarrow> ScmVM \<Rightarrow> nat list \<Rightarrow> bool" where
  "holders_forwarded vm vs vt ns =
     (\<forall>n\<in>set ns.
        (cont vm = Stk n \<longrightarrow> cont vt = c_prev (conts vs (Stk n)))
        \<and> (\<forall>a\<in>set (cstack vm). cs_cont vm a = Stk n \<longrightarrow> cs_cont vt a = c_prev (conts vs (Stk n)))
        \<and> (\<forall>a\<in>set (escapePoint vm) \<union> set (floatingEP vm).
              ep_cont (eps vm a) = Stk n \<longrightarrow> ep_cont (eps vt a) = c_prev (conts vs (Stk n))))"

lemma save_cont_forwards:
  assumes hc: "heap_closed k vm" and ec: "env_closed k vm" and ch: "cont_chain k vm (cont vm) ns"
  shows "heap_closed k (save_cont k vm) \<and> \<not> IN_STACK_P k (cont (save_cont k vm))
         \<and> (\<forall>n\<in>set ns. FORWARDED_CONT_P (save_cont k vm) (Stk n)
                        \<and> heap_copy k vm (save_cont k vm) (save_cont k vm) n)
         \<and> distinct (map (\<lambda>n. c_prev (conts (save_cont k vm) (Stk n))) ns)
         \<and> holders_forwarded vm (save_cont k vm) (save_cont k vm) ns"
proof -
  obtain e vm0 where se: "save_env k vm (env vm) = (e, vm0)" by (cases "save_env k vm (env vm)") auto
  have m0: "mem_only vm vm0" using envs_only_mem_only[OF save_env_only[of vm k "env vm"]] se by simp
  let ?v0 = "vm0\<lparr>env := e\<rparr>"
  have k0: "kept vm ?v0" using mem_only_kept[OF m0] by (simp add: kept_def)
  have c0: "conts ?v0 = conts vm" using save_env_conts[of k vm "env vm"] se by simp
  have h0: "heapNext vm \<le> heapNext ?v0" using save_env_heapNext[of vm k "env vm"] se by simp
  have s0: "stack ?v0 = stack vm" using save_env_envs(6)[OF ec, of "env vm"] se by simp
  have ec0: "env_closed k ?v0"
    using save_env_envs(1)[OF ec, of "env vm"] se env_closed_cong[of ?v0 vm0 k] by simp
  have f0: "eps ?v0 = eps vm" "cs_cont ?v0 = cs_cont vm" "cont ?v0 = cont vm"
    using mem_only_eps[OF m0] by simp_all
  show ?thesis
  proof (cases ns)
    case Nil
    then have ns: "\<not> IN_STACK_P k (cont vm)" using ch by simp
    then have sc: "save_cont k vm = ?v0" using se by (simp add: save_cont_def Let_def)
    have "heap_closed k ?v0" using hc c0 by (simp add: heap_closed_def)
    moreover have "\<not> IN_STACK_P k (cont ?v0)" using ns f0 by simp
    moreover have "holders_forwarded vm ?v0 ?v0 ns" using Nil by (simp add: holders_forwarded_def)
    ultimately show ?thesis unfolding sc using Nil by simp
  next
    case (Cons n0 rest)
    have cn: "cont vm = Stk n0" and ins: "IN_STACK_P k (cont vm)" using ch Cons by simp_all
    have ch0: "cont_chain k ?v0 (Stk n0) (n0 # rest)"
      using cont_chain_cong[of "n0 # rest" ?v0 vm k "Stk n0"] c0 ch Cons cn by simp
    have pre: "pass1_pre k ?v0 NULL"
      using hc ec0 unfolding pass1_pre_def heap_closed_def c0 by simp
    let ?v1 = "save_cont_pass1 k ?v0 (Stk n0) NULL"
    have post: "pass1_post k ?v0 ?v1 NULL (n0 # rest)"
      by (rule pass1_chain[OF ch0 cont_chain_distinct[OF ch0] pre])
    note p1 = pass1_postD(1)[OF post] and p2 = pass1_postD(2)[OF post] and p3 = pass1_postD(3)[OF post]
      and p10 = pass1_postD(10)[OF post]
    have m1: "mem_only ?v0 ?v1" by (rule save_cont_pass1_mem_only)
    have k1: "kept vm ?v1" using mem_only_kept[OF m1] k0 kept_trans by blast
    have f1: "eps ?v1 = eps vm" "cs_cont ?v1 = cs_cont vm" "cont ?v1 = Stk n0"
      using mem_only_eps[OF m1] f0 cn by simp_all
    let ?C = "conts ?v1"
    let ?q0 = "c_prev (?C (Stk n0))"
    have fw: "FORWARDED_CONT_P ?v1 (Stk n)" if "n \<in> set (n0 # rest)" for n
      using p2[OF that] by (simp add: FORWARDED_CONT_P_def)
    have cpk: "copy_ok k ?v0 ?v1 n" if "n \<in> set (n0 # rest)" for n
      using p2[OF that] by simp
    have blk: "\<exists>b. c_prev (?C (Stk n)) = Heap b 0" if nn: "n \<in> set (n0 # rest)" for n
      using cpk[OF nn] unfolding copy_ok_def by blast
    have nfw: "\<not> FORWARDED_CONT_P ?v1 (c_prev (?C (Stk n)))" if nn: "n \<in> set (n0 # rest)" for n
    proof -
      obtain b where b: "c_prev (?C (Stk n)) = Heap b 0" using blk[OF nn] by blast
      have "c_size (?C (Heap b 0)) \<noteq> -1" using p1[of "Heap b 0"] by simp
      then show ?thesis unfolding b by (simp add: FORWARDED_CONT_P_def)
    qed
    let ?v2 = "?v1\<lparr>cont := ?q0\<rparr>"
    have k2: "kept vm ?v2" using k1 by (simp add: kept_def)
    have f2: "eps ?v2 = eps vm" "cs_cont ?v2 = cs_cont vm" "cont ?v2 = ?q0" "conts ?v2 = ?C"
      using f1 by simp_all
    let ?v3 = "save_cont_cstk_loop ?v2 (cstack ?v2)"
    have l3: "kept ?v2 ?v3" "conts ?v3 = conts ?v2" "eps ?v3 = eps ?v2" "cont ?v3 = cont ?v2"
      using save_cont_cstk_loop_kept[of ?v2 "cstack ?v2"] by blast+
    have k3: "kept vm ?v3" using k2 l3(1) kept_trans by blast
    let ?v4 = "save_cont_ep_loop ?v3 (escapePoint ?v3)"
    have l4: "kept ?v3 ?v4" "conts ?v4 = conts ?v3" "cs_cont ?v4 = cs_cont ?v3" "cont ?v4 = cont ?v3"
      using save_cont_ep_loop_kept[of ?v3 "escapePoint ?v3"] by blast+
    have k4: "kept vm ?v4" using k3 l4(1) kept_trans by blast
    let ?v5 = "save_cont_ep_loop ?v4 (floatingEP ?v4)"
    have l5: "kept ?v4 ?v5" "conts ?v5 = conts ?v4" "cs_cont ?v5 = cs_cont ?v4" "cont ?v5 = cont ?v4"
      using save_cont_ep_loop_kept[of ?v4 "floatingEP ?v4"] by blast+
    have sc: "save_cont k vm = ?v5"
      using ins se cn fw[of n0] f1(3) by (simp add: save_cont_def Let_def)
    have C2: "conts ?v2 = ?C" by simp
    have C3: "conts ?v3 = ?C" using l3(2) by simp
    have C4: "conts ?v4 = ?C" using l4(2) C3 by simp
    have C5: "conts ?v5 = ?C" using l5(2) C4 by simp
    have E5: "envs ?v5 = envs ?v1"
      by (simp add: save_cont_ep_loop_envs save_cont_cstk_loop_envs)
    have ct5: "cont ?v5 = ?q0" using l5(4) l4(4) l3(4) by simp
    have cs2: "cstack ?v2 = cstack vm" using k2 by (simp add: kept_def)
    have es3: "escapePoint ?v3 = escapePoint vm" using k3 by (simp add: kept_def)
    have fl4: "floatingEP ?v4 = floatingEP vm" using k4 by (simp add: kept_def)
    have fwd: "FORWARDED_CONT_P v p = FORWARDED_CONT_P ?v1 p" if "conts v = ?C" for v p
      using that by (simp add: FORWARDED_CONT_P_def)
    have A: "heap_closed k ?v5" unfolding heap_closed_def C5 using p1 by blast
    have B: "\<not> IN_STACK_P k (cont ?v5)"
    proof -
      obtain b where "?q0 = Heap b 0" using blk[of n0] by auto
      then show ?thesis unfolding ct5 by simp
    qed
    have fc5: "fwd_cont k ?v5 = fwd_cont k ?v1" using C5 by (simp add: fwd_cont_def fun_eq_iff)
    have fe5: "fwd_env k ?v5 = fwd_env k ?v1" using E5 by (simp add: fwd_env_def fun_eq_iff)
    have P1: "FORWARDED_CONT_P ?v5 (Stk n) \<and> heap_copy k vm ?v5 ?v5 n" if n: "n \<in> set ns" for n
    proof -
      have n': "n \<in> set (n0 # rest)" using n Cons by simp
      obtain b where b: "c_prev (?C (Stk n)) = Heap b 0" "heapNext ?v0 \<le> b"
        "?C (Heap b 0)
               = frame_copy k ?v0 (conts ?v0 (Stk n)) b (fwd_cont k ?v1 (c_prev (conts ?v0 (Stk n))))
                   (fwd_env k ?v1 (c_env (conts ?v0 (Stk n))))"
        and nse: "\<not> IN_STACK_P k (fwd_env k ?v1 (c_env (conts ?v0 (Stk n))))"
        using cpk[OF n'] unfolding copy_ok_def by blast
      have hb: "heapNext vm \<le> b" using b(2) h0 by simp
      have b3: "?C (Heap b 0)
               = frame_copy k vm (conts vm (Stk n)) b (fwd_cont k ?v1 (c_prev (conts vm (Stk n))))
                   (fwd_env k ?v1 (c_env (conts vm (Stk n))))"
        using b(3) unfolding c0 frame_copy_cong[OF s0] .
      have "heap_copy k vm ?v5 ?v5 n"
        unfolding heap_copy_def C5 fc5 fe5
        using b(1) hb b3 nse[unfolded c0] by (intro conjI exI[of _ b]) simp_all
      moreover have "FORWARDED_CONT_P ?v5 (Stk n)" using fwd[OF C5] fw[OF n'] by simp
      ultimately show ?thesis by simp
    qed
    have D: "distinct (map (\<lambda>n. c_prev (conts ?v5 (Stk n))) ns)"
      unfolding C5 Cons by (rule p10)
    have P2: "holders_forwarded vm ?v5 ?v5 ns"
      unfolding holders_forwarded_def
    proof (intro conjI ballI allI impI)
      fix n assume n: "n \<in> set ns" and "cont vm = Stk n"
      then have "n = n0" using cn by simp
      then show "cont ?v5 = c_prev (conts ?v5 (Stk n))" unfolding C5 ct5 by simp
    next
      fix n a assume n: "n \<in> set ns" and a: "a \<in> set (cstack vm)" and h: "cs_cont vm a = Stk n"
      have n': "n \<in> set (n0 # rest)" using n Cons by simp
      have "cs_cont ?v3 a = c_prev (?C (Stk n))"
      proof (rule save_cont_cstk_loop_val[OF C2])
        show "FORWARDED_CONT_P ?v2 (Stk n)" using fwd[OF C2] fw[OF n'] by simp
        show "\<not> FORWARDED_CONT_P ?v2 (c_prev (?C (Stk n)))" using fwd[OF C2] nfw[OF n'] by simp
        show "(a \<in> set (cstack ?v2) \<and> cs_cont ?v2 a = Stk n) \<or> cs_cont ?v2 a = c_prev (?C (Stk n))"
          unfolding cs2 using a h f2(2) by simp
      qed
      then show "cs_cont ?v5 a = c_prev (conts ?v5 (Stk n))"
        unfolding C5 l5(3) l4(3) .
    next
      fix n a assume n: "n \<in> set ns" and a: "a \<in> set (escapePoint vm) \<union> set (floatingEP vm)"
        and h: "ep_cont (eps vm a) = Stk n"
      have n': "n \<in> set (n0 # rest)" using n Cons by simp
      have e3: "ep_cont (eps ?v3 a) = Stk n" using l3(3) f2(1) h by simp
      have F3: "FORWARDED_CONT_P ?v3 (Stk n)" "\<not> FORWARDED_CONT_P ?v3 (c_prev (?C (Stk n)))"
        using fwd[OF C3] fw[OF n'] nfw[OF n'] by simp_all
      have F4: "FORWARDED_CONT_P ?v4 (Stk n)" "\<not> FORWARDED_CONT_P ?v4 (c_prev (?C (Stk n)))"
        using fwd[OF C4] fw[OF n'] nfw[OF n'] by simp_all
      have d4: "(a \<in> set (floatingEP ?v4) \<and> ep_cont (eps ?v4 a) = Stk n)
                \<or> ep_cont (eps ?v4 a) = c_prev (?C (Stk n))"
      proof (cases "a \<in> set (escapePoint vm)")
        case True
        have "ep_cont (eps ?v4 a) = c_prev (?C (Stk n))"
        proof (rule save_cont_ep_loop_val[OF C3 F3])
          show "(a \<in> set (escapePoint ?v3) \<and> ep_cont (eps ?v3 a) = Stk n)
                \<or> ep_cont (eps ?v3 a) = c_prev (?C (Stk n))"
            unfolding es3 using True e3 by simp
        qed
        then show ?thesis by simp
      next
        case False
        then have "eps ?v4 a = eps ?v3 a"
          using save_cont_ep_loop_skip[of a "escapePoint ?v3" ?v3] es3 by simp
        moreover have "a \<in> set (floatingEP vm)" using a False by simp
        ultimately show ?thesis unfolding fl4 using e3 by simp
      qed
      have "ep_cont (eps ?v5 a) = c_prev (?C (Stk n))"
        by (rule save_cont_ep_loop_val[OF C4 F4 d4])
      then show "ep_cont (eps ?v5 a) = c_prev (conts ?v5 (Stk n))" unfolding C5 .
    qed
    show ?thesis unfolding sc using A B P1 D P2 by blast
  qed
qed

lemma save_stack_conts_outside:
  assumes "sp vm \<le> stackEnd vm" and "stackEnd vm \<le> SCM_VM_STACK_SIZE k" and "\<not> IN_STACK_P k p"
  shows "conts (save_stack k vm) p = conts (save_cont k vm) p"
  using assms by (cases p) (simp_all add: save_stack_eq cleared_def moved_def)

lemma save_stack_holders:
  "cont (save_stack k vm) = cont (save_cont k vm)"
  "cs_cont (save_stack k vm) = cs_cont (save_cont k vm)"
  "eps (save_stack k vm) = eps (save_cont k vm)"
  by (simp_all add: save_stack_eq)


text \<open>
  C1. Let the VM state be well formed: the frames linked from \<open>cont\<close> through \<open>prev\<close> inside
  the value stack form a finite chain \<open>ns\<close> of frames that are not yet forwarded, ending at a
  pointer outside the stack (\<open>cont_chain\<close>); no frame outside the stack is forwarded or links
  back into the stack (\<open>heap_closed\<close>); an environment frame is forwarded only in the stack
  and to a frame outside it (\<open>env_closed\<close>); and \<open>sp \<le> stackEnd\<close>, the end of the stack.
  Then after \<open>save_stack\<close>: no frame reachable from the \<open>cont\<close> register through \<open>prev\<close>
  lies in the value stack; \<open>save_cont\<close> has forwarded every frame of the chain to a block of
  its own allocated by the call, which after compaction holds the frame's heap copy (all
  seven fields: \<open>pc\<close>, \<open>size\<close>, \<open>base\<close> and the arguments or data words of the original,
  \<open>argp\<close> relocated, \<open>prev\<close> and \<open>env\<close> forwarded); every holder that referred to a frame of
  the chain, namely the \<open>cont\<close> register, the \<open>cont\<close> field of each record on the \<open>cstack\<close>
  chain, and the \<open>cont\<close> field of each escape point on the \<open>escapePoint\<close> chain and on the
  floating chain, holds the address of that copy; and the stack words from the new \<open>sp\<close> to
  the end of the stack no longer hold a frame.
\<close>

theorem save_stack_forwards_conts:
  assumes "heap_closed k vm" and "env_closed k vm" and "cont_chain k vm (cont vm) ns"
    and "sp vm \<le> stackEnd vm" and "stackEnd vm \<le> SCM_VM_STACK_SIZE k"
  shows "(\<forall>p. (cont (save_stack k vm), p) \<in> cont_reach (save_stack k vm) \<longrightarrow> \<not> IN_STACK_P k p)
         \<and> (\<forall>n\<in>set ns. FORWARDED_CONT_P (save_cont k vm) (Stk n)
                        \<and> heap_copy k vm (save_cont k vm) (save_stack k vm) n)
         \<and> distinct (map (\<lambda>n. c_prev (conts (save_cont k vm) (Stk n))) ns)
         \<and> holders_forwarded vm (save_cont k vm) (save_stack k vm) ns
         \<and> (\<forall>n. sp vm - argp vm \<le> n \<and> n < stackEnd vm \<longrightarrow> conts (save_stack k vm) (Stk n) = zero_cont)"
proof -
  let ?s = "save_cont k vm"
  let ?t = "save_stack k vm"
  note o = save_stack_conts_outside[OF assms(4,5)]
  note f = save_stack_holders[of k vm]
  have sc: "heap_closed k ?s" "\<not> IN_STACK_P k (cont ?s)"
    "\<And>n. n \<in> set ns \<Longrightarrow> FORWARDED_CONT_P ?s (Stk n) \<and> heap_copy k vm ?s ?s n"
    "distinct (map (\<lambda>n. c_prev (conts ?s (Stk n))) ns)"
    "holders_forwarded vm ?s ?s ns"
    using save_cont_forwards[OF assms(1,2,3)] by blast+
  have hc: "heap_closed k ?t"
    unfolding heap_closed_def
  proof (intro allI impI)
    fix p assume p: "p \<noteq> NULL \<and> \<not> IN_STACK_P k p"
    then have "conts ?t p = conts ?s p" using o by simp
    then show "c_size (conts ?t p) \<noteq> -1 \<and> \<not> IN_STACK_P k (c_prev (conts ?t p))"
      using sc(1) p unfolding heap_closed_def by simp
  qed
  have A: "\<not> IN_STACK_P k p" if "(cont ?t, p) \<in> cont_reach ?t" for p
    using heap_closed_reach[OF hc _ that] sc(2) f(1) by simp
  have B: "FORWARDED_CONT_P ?s (Stk n) \<and> heap_copy k vm ?s ?t n" if n: "n \<in> set ns" for n
  proof -
    obtain b where b: "c_prev (conts ?s (Stk n)) = Heap b 0" "heapNext vm \<le> b"
      "conts ?s (Heap b 0)
               = frame_copy k vm (conts vm (Stk n)) b (fwd_cont k ?s (c_prev (conts vm (Stk n))))
                   (fwd_env k ?s (c_env (conts vm (Stk n))))"
      and nse: "\<not> IN_STACK_P k (fwd_env k ?s (c_env (conts vm (Stk n))))"
      using sc(3)[OF n] unfolding heap_copy_def by blast
    have "conts ?t (Heap b 0) = conts ?s (Heap b 0)" using o[of "Heap b 0"] by simp
    then have "heap_copy k vm ?s ?t n"
      unfolding heap_copy_def using b nse by (intro conjI exI[of _ b]) simp_all
    then show ?thesis using sc(3)[OF n] by simp
  qed
  have C: "holders_forwarded vm ?s ?t ns"
    using sc(5) unfolding holders_forwarded_def f .
  have D: "conts ?t (Stk n) = zero_cont" if "sp vm - argp vm \<le> n \<and> n < stackEnd vm" for n
    using that by (simp add: save_stack_eq cleared_def)
  show ?thesis using A B sc(4) C D by blast
qed

text \<open>
  A VM with a C continuation at offset 9 linked to a Scheme frame at offset 3, whose two
  arguments are the stack words 1 and 2; the register \<open>cont\<close> and an escape point on the main
  chain hold the first, a host-stack record and a floating escape point hold the second.
\<close>

definition vm_chain :: ScmVM where
  "vm_chain = (Scm_NewVM k0)\<lparr>sp := 15, argp := 15,
      cont := Stk 9, cstack := [0], escapePoint := [1], floatingEP := [2],
      stack := (\<lambda>_. NULLW)(1 := ObjW (Obj 7), 2 := ObjW (Obj 8)),
      conts := (\<lambda>_. zero_cont)
                 (Stk 9 := zero_cont\<lparr>c_prev := Stk 3, c_pc := CProc Dynwind_body_cc, c_size := 2,
                                     c_data := [ObjW (Obj 4), HandlersW []]\<rparr>,
                  Stk 3 := zero_cont\<lparr>c_pc := CodeAt 5, c_argp := Stk 1, c_size := 2, c_base := Some 1\<rparr>),
      cs_cont := (\<lambda>_. NULL)(0 := Stk 3),
      eps := (\<lambda>_. zero_ep)(1 := zero_ep\<lparr>ep_cont := Stk 9\<rparr>, 2 := zero_ep\<lparr>ep_cont := Stk 3\<rparr>)\<rparr>"

theorem save_stack_forwards_conts_witness:
  "heap_closed k0 vm_chain \<and> env_closed k0 vm_chain \<and> cont_chain k0 vm_chain (cont vm_chain) [9, 3]
   \<and> sp vm_chain \<le> stackEnd vm_chain \<and> stackEnd vm_chain \<le> SCM_VM_STACK_SIZE k0
   \<and> \<not> IN_STACK_P k0 (cont (save_stack k0 vm_chain))
   \<and> c_pc (conts (save_stack k0 vm_chain) (cont (save_stack k0 vm_chain))) = CProc Dynwind_body_cc
   \<and> c_data (conts (save_stack k0 vm_chain) (cont (save_stack k0 vm_chain))) = [ObjW (Obj 4), HandlersW []]
   \<and> c_prev (conts (save_stack k0 vm_chain) (cont (save_stack k0 vm_chain))) = cs_cont (save_stack k0 vm_chain) 0
   \<and> ep_cont (eps (save_stack k0 vm_chain) 1) = cont (save_stack k0 vm_chain)
   \<and> ep_cont (eps (save_stack k0 vm_chain) 2) = cs_cont (save_stack k0 vm_chain) 0
   \<and> cs_cont (save_stack k0 vm_chain) 0 \<noteq> cont (save_stack k0 vm_chain)
   \<and> \<not> IN_STACK_P k0 (cs_cont (save_stack k0 vm_chain) 0)
   \<and> c_pc (conts (save_stack k0 vm_chain) (cs_cont (save_stack k0 vm_chain) 0)) = CodeAt 5
   \<and> c_data (conts (save_stack k0 vm_chain) (cs_cont (save_stack k0 vm_chain) 0)) = [ObjW (Obj 7), ObjW (Obj 8)]
   \<and> c_prev (conts (save_stack k0 vm_chain) (cs_cont (save_stack k0 vm_chain) 0)) = NULL
   \<and> conts (save_stack k0 vm_chain) (Stk 9) = zero_cont
   \<and> conts (save_stack k0 vm_chain) (Stk 3) = zero_cont"
proof -
  have cz: "conts vm_chain p = zero_cont" if "p \<noteq> Stk 9" "p \<noteq> Stk 3" for p
    using that by (simp add: vm_chain_def Scm_NewVM_def)
  have hc: "heap_closed k0 vm_chain"
    unfolding heap_closed_def
  proof (intro allI impI)
    fix p assume p: "p \<noteq> NULL \<and> \<not> IN_STACK_P k0 p"
    then have "p \<noteq> Stk 9" "p \<noteq> Stk 3" by (auto simp: k0_def)
    then have "conts vm_chain p = zero_cont" by (rule cz)
    then show "c_size (conts vm_chain p) \<noteq> -1 \<and> \<not> IN_STACK_P k0 (c_prev (conts vm_chain p))"
      by (simp add: zero_cont_def)
  qed
  have ec: "env_closed k0 vm_chain"
    by (simp add: env_closed_def vm_chain_def Scm_NewVM_def zero_env_def)
  have ch: "cont_chain k0 vm_chain (cont vm_chain) [9, 3]"
    by (simp add: vm_chain_def Scm_NewVM_def zero_cont_def k0_def)
  have sp: "sp vm_chain \<le> stackEnd vm_chain" "stackEnd vm_chain \<le> SCM_VM_STACK_SIZE k0"
    "sp vm_chain - argp vm_chain = 0" "stackEnd vm_chain = 16"
    by (simp_all add: vm_chain_def Scm_NewVM_def k0_def)
  let ?s = "save_cont k0 vm_chain"
  let ?t = "save_stack k0 vm_chain"
  have t: "\<And>p. (cont ?t, p) \<in> cont_reach ?t \<Longrightarrow> \<not> IN_STACK_P k0 p"
    "\<And>n. n \<in> set [9, 3] \<Longrightarrow> heap_copy k0 vm_chain ?s ?t n"
    "distinct (map (\<lambda>n. c_prev (conts ?s (Stk n))) [9, 3])"
    "holders_forwarded vm_chain ?s ?t [9, 3]"
    "\<And>n. sp vm_chain - argp vm_chain \<le> n \<and> n < stackEnd vm_chain \<Longrightarrow> conts ?t (Stk n) = zero_cont"
    using save_stack_forwards_conts[OF hc ec ch sp(1,2)] by blast+
  have v: "cont vm_chain = Stk 9" "cstack vm_chain = [0]" "cs_cont vm_chain 0 = Stk 3"
    "escapePoint vm_chain = [1]" "floatingEP vm_chain = [2]"
    "ep_cont (eps vm_chain 1) = Stk 9" "ep_cont (eps vm_chain 2) = Stk 3"
    by (simp_all add: vm_chain_def Scm_NewVM_def)
  have h: "cont ?t = c_prev (conts ?s (Stk 9))"
    "cs_cont ?t 0 = c_prev (conts ?s (Stk 3))"
    "ep_cont (eps ?t 1) = c_prev (conts ?s (Stk 9))"
    "ep_cont (eps ?t 2) = c_prev (conts ?s (Stk 3))"
    using t(4) v by (simp_all add: holders_forwarded_def)
  have r: "\<not> IN_STACK_P k0 (cont ?t)"
    by (rule t(1)) (simp add: cont_reach_def)
  have f9: "conts vm_chain (Stk 9) = zero_cont\<lparr>c_prev := Stk 3, c_pc := CProc Dynwind_body_cc, c_size := 2,
                                     c_data := [ObjW (Obj 4), HandlersW []]\<rparr>"
    and f3: "conts vm_chain (Stk 3) = zero_cont\<lparr>c_pc := CodeAt 5, c_argp := Stk 1, c_size := 2, c_base := Some 1\<rparr>"
    by (simp_all add: vm_chain_def Scm_NewVM_def)
  have rw: "read_words vm_chain (Stk 1) 2 = [ObjW (Obj 7), ObjW (Obj 8)]"
    by (simp add: read_words_def vm_chain_def Scm_NewVM_def upt_rec)
  obtain b9 where b9: "c_prev (conts ?s (Stk 9)) = Heap b9 0"
    "conts ?t (Heap b9 0)
       = frame_copy k0 vm_chain (conts vm_chain (Stk 9)) b9 (fwd_cont k0 ?s (c_prev (conts vm_chain (Stk 9))))
           (fwd_env k0 ?s (c_env (conts vm_chain (Stk 9))))"
    using t(2)[of 9] unfolding heap_copy_def by auto
  obtain b3 where b3: "c_prev (conts ?s (Stk 3)) = Heap b3 0"
    "conts ?t (Heap b3 0)
       = frame_copy k0 vm_chain (conts vm_chain (Stk 3)) b3 (fwd_cont k0 ?s (c_prev (conts vm_chain (Stk 3))))
           (fwd_env k0 ?s (c_env (conts vm_chain (Stk 3))))"
    using t(2)[of 3] unfolding heap_copy_def by auto
  have c9: "c_pc (conts ?t (cont ?t)) = CProc Dynwind_body_cc"
    "c_data (conts ?t (cont ?t)) = [ObjW (Obj 4), HandlersW []]"
    "c_prev (conts ?t (cont ?t)) = cs_cont ?t 0"
    unfolding h b9 f9 by (simp_all add: frame_copy_def zero_cont_def fwd_cont_def k0_def)
  have c3: "c_pc (conts ?t (cs_cont ?t 0)) = CodeAt 5"
    "c_data (conts ?t (cs_cont ?t 0)) = [ObjW (Obj 7), ObjW (Obj 8)]"
    "c_prev (conts ?t (cs_cont ?t 0)) = NULL"
    unfolding h b3 f3 using rw by (simp_all add: frame_copy_def zero_cont_def fwd_cont_def k0_def)
  have ne: "cs_cont ?t 0 \<noteq> cont ?t" using t(3) unfolding h by simp
  have ns: "\<not> IN_STACK_P k0 (cs_cont ?t 0)" unfolding h b3 by simp
  have z: "conts ?t (Stk 9) = zero_cont" "conts ?t (Stk 3) = zero_cont"
    using t(5)[of 9] t(5)[of 3] sp(3,4) by simp_all
  show ?thesis using hc ec ch sp(1,2) r c9 c3 h ne ns z by simp
qed

end
